theory Spec2Isabelle
  imports Complex_Main
begin

section \<open>The AlphaZero training pipeline for Gomoku (train\_mxnet.py)\<close>

text \<open>
  The development follows \<^verbatim>\<open>src/train_mxnet.py\<close>, class \<^verbatim>\<open>TrainPipeline\<close>.
  Python floats are modelled by \<^typ>\<open>real\<close>: the pipeline only compares them, multiplies
  and divides them by constants and feeds them to the collaborators, so rounding is left
  out. Python exceptions are values of \<open>py_error\<close>; a function that can raise returns
  \<open>py_error + 'a\<close> with \<open>Inl\<close> for the exception.
\<close>

datatype py_error = ValueError | ZeroDivisionError | UnboundLocalError

subsection \<open>The NumPy operations used by the augmenter\<close>

text \<open>
  A two-dimensional array is the list of its rows. \<^verbatim>\<open>reshape(h, w)\<close> raises
  \<^verbatim>\<open>ValueError\<close> unless the vector has exactly \<open>h * w\<close> entries; \<^verbatim>\<open>flatten\<close> is
  row-major. \<^verbatim>\<open>np.rot90(m, k)\<close> reduces \<open>k\<close> modulo 4 and then is the identity, the
  transpose of the left-right flip, both flips, or the left-right flip of the
  transpose, as in NumPy's own definition. Arrays with no row or no column lose their
  shape in this representation; boards have at least one row and one column.
\<close>

type_synonym 'a mat = "'a list list"

fun rows_of :: "nat \<Rightarrow> nat \<Rightarrow> 'a list \<Rightarrow> 'a mat" where
  "rows_of 0 w v = []"
| "rows_of (Suc h) w v = take w v # rows_of h w (drop w v)"

definition reshape :: "nat \<Rightarrow> nat \<Rightarrow> 'a list \<Rightarrow> py_error + 'a mat" where
  "reshape h w v = (if length v = h * w then Inr (rows_of h w v) else Inl ValueError)"

definition flatten :: "'a mat \<Rightarrow> 'a list" where
  "flatten m = concat m"

definition flipud :: "'a mat \<Rightarrow> 'a mat" where
  "flipud m = rev m"

definition fliplr :: "'a mat \<Rightarrow> 'a mat" where
  "fliplr m = map rev m"

definition rot90 :: "'a mat \<Rightarrow> nat \<Rightarrow> 'a mat" where
  "rot90 m k =
     (let k = k mod 4 in
      if k = 0 then m
      else if k = 2 then flipud (fliplr m)
      else if k = 1 then transpose (fliplr m)
      else fliplr (transpose m))"

subsection \<open>\<^verbatim>\<open>get_equi_data\<close>: augmentation by rotation and flipping\<close>

text \<open>
  A sample is \<^verbatim>\<open>(state, mcts_prob, winner_z)\<close>: the state is the list of its channels.
  \<open>equi_rot\<close> is the body of the inner loop (lines 100 to 111) for one rotation step
  \<open>i\<close>, appending two samples to \<^verbatim>\<open>extend_data\<close>; \<open>equi_rots\<close> is the inner loop
  over \<^verbatim>\<open>[1, 2, 3, 4]\<close>, \<open>equi_loop\<close> the outer loop over \<^verbatim>\<open>play_data\<close>.
\<close>

type_synonym ('a, 'b, 'c) sample = "'a mat list \<times> 'b list \<times> 'c"

definition equi_rot ::
  "nat \<Rightarrow> nat \<Rightarrow> ('a, 'b, 'c) sample \<Rightarrow> ('a, 'b, 'c) sample list \<Rightarrow> nat
     \<Rightarrow> py_error + ('a, 'b, 'c) sample list" where
  "equi_rot board_height board_width smp extend_data i =
     (case smp of (state, mcts_porb, winner) \<Rightarrow>
        let equi_state = map (\<lambda>s. rot90 s i) state in
        (case reshape board_height board_width mcts_porb of
           Inl e \<Rightarrow> Inl e
         | Inr pm \<Rightarrow>
             (let equi_mcts_prob = rot90 (flipud pm) i;
                  extend_data1 = extend_data @ [(equi_state, flatten (flipud equi_mcts_prob), winner)];
                  equi_state2 = map fliplr equi_state;
                  equi_mcts_prob2 = fliplr equi_mcts_prob
              in Inr (extend_data1 @ [(equi_state2, flatten (flipud equi_mcts_prob2), winner)]))))"

fun equi_rots ::
  "nat \<Rightarrow> nat \<Rightarrow> ('a, 'b, 'c) sample \<Rightarrow> nat list \<Rightarrow> ('a, 'b, 'c) sample list
     \<Rightarrow> py_error + ('a, 'b, 'c) sample list" where
  "equi_rots h w smp [] extend_data = Inr extend_data"
| "equi_rots h w smp (i # is) extend_data =
     (case equi_rot h w smp extend_data i of
        Inl e \<Rightarrow> Inl e
      | Inr extend_data' \<Rightarrow> equi_rots h w smp is extend_data')"

fun equi_loop ::
  "nat \<Rightarrow> nat \<Rightarrow> ('a, 'b, 'c) sample list \<Rightarrow> ('a, 'b, 'c) sample list
     \<Rightarrow> py_error + ('a, 'b, 'c) sample list" where
  "equi_loop h w [] extend_data = Inr extend_data"
| "equi_loop h w (smp # play_data) extend_data =
     (case equi_rots h w smp [1, 2, 3, 4] extend_data of
        Inl e \<Rightarrow> Inl e
      | Inr extend_data' \<Rightarrow> equi_loop h w play_data extend_data')"

definition get_equi_data ::
  "nat \<Rightarrow> nat \<Rightarrow> ('a, 'b, 'c) sample list \<Rightarrow> py_error + ('a, 'b, 'c) sample list" where
  "get_equi_data board_height board_width play_data =
     equi_loop board_height board_width play_data []"

text \<open>
  The augmentation as the specification words it: for a rotation step \<open>k\<close>, the rotated
  sample, and the horizontal mirror image of that rotated sample (of each channel of
  its state and of its probability board).
\<close>

definition spec_prob_board :: "nat \<Rightarrow> nat \<Rightarrow> nat \<Rightarrow> 'b list \<Rightarrow> 'b mat" where
  "spec_prob_board h w k p = flipud (rot90 (flipud (rows_of h w p)) k)"

definition spec_rotated :: "nat \<Rightarrow> nat \<Rightarrow> nat \<Rightarrow> ('a, 'b, 'c) sample \<Rightarrow> ('a, 'b, 'c) sample" where
  "spec_rotated h w k smp =
     (case smp of (s, p, z) \<Rightarrow>
        (map (\<lambda>c. rot90 c k) s, flatten (spec_prob_board h w k p), z))"

definition spec_mirrored :: "nat \<Rightarrow> nat \<Rightarrow> nat \<Rightarrow> ('a, 'b, 'c) sample \<Rightarrow> ('a, 'b, 'c) sample" where
  "spec_mirrored h w k smp =
     (case smp of (s, p, z) \<Rightarrow>
        (map (\<lambda>c. fliplr (rot90 c k)) s, flatten (fliplr (spec_prob_board h w k p)), z))"

definition spec_augment :: "nat \<Rightarrow> nat \<Rightarrow> ('a, 'b, 'c) sample list \<Rightarrow> ('a, 'b, 'c) sample list" where
  "spec_augment h w play_data =
     concat (map (\<lambda>smp. concat (map (\<lambda>k. [spec_rotated h w k smp, spec_mirrored h w k smp])
                                     [1, 2, 3, 4])) play_data)"

definition well_shaped :: "nat \<Rightarrow> nat \<Rightarrow> ('a, 'b, 'c) sample list \<Rightarrow> bool" where
  "well_shaped h w play_data = list_all (\<lambda>smp. length (fst (snd smp)) = h * w) play_data"

subsection \<open>The replay buffer: \<^verbatim>\<open>deque(maxlen=buffer_size)\<close>\<close>

text \<open>
  The deque is the list of its elements, oldest first. With a maximum length, appending
  on the right adds the element and, when the deque is then longer than the maximum,
  drops the leftmost one; \<^verbatim>\<open>extend\<close> appends the elements one by one, left to right.
\<close>

definition deque_append :: "nat \<Rightarrow> 'a list \<Rightarrow> 'a \<Rightarrow> 'a list" where
  "deque_append maxlen d x = (let d' = d @ [x] in if length d' > maxlen then tl d' else d')"

definition deque_extend :: "nat \<Rightarrow> 'a list \<Rightarrow> 'a list \<Rightarrow> 'a list" where
  "deque_extend maxlen d xs = foldl (deque_append maxlen) d xs"

text \<open>A run of \<^verbatim>\<open>extend\<close> calls on the buffer that \<^verbatim>\<open>__init__\<close> creates empty.\<close>

definition extend_calls :: "nat \<Rightarrow> 'a list list \<Rightarrow> 'a list" where
  "extend_calls maxlen calls = foldl (deque_extend maxlen) [] calls"

subsection \<open>Collaborators and pipeline state\<close>

text \<open>
  The game, the search players, the network and the random number generator are not part
  of the pipeline. They enter as a record of functions. The ones that are random or
  keep state of their own (self-play, evaluation games, \<^verbatim>\<open>random.sample\<close>) thread a
  world \<open>'w\<close>; the network's parameters are a value \<open>'net\<close>, which \<^verbatim>\<open>train_step\<close>
  replaces. The temperature, \<^verbatim>\<open>c_puct\<close> and \<^verbatim>\<open>n_playout\<close> never change and are part of
  these functions. \<^verbatim>\<open>start_play\<close> gets the learner's network, the playout number of the
  pure MCTS opponent and \<^verbatim>\<open>start_player\<close>, and returns the winner: 1 the learner,
  2 the opponent, -1 a tie.
\<close>

type_synonym state_t = "real mat list"

type_synonym train_sample = "(real, real, real) sample"

record ('net, 'w) collaborators =
  start_self_play :: "'w \<Rightarrow> 'net \<Rightarrow> string \<Rightarrow> (bool \<times> int \<times> train_sample list) \<times> 'w"
  start_play :: "'w \<Rightarrow> 'net \<Rightarrow> int \<Rightarrow> nat \<Rightarrow> int \<times> 'w"
  random_sample :: "'w \<Rightarrow> train_sample list \<Rightarrow> nat \<Rightarrow> train_sample list \<times> 'w"
  policy_value :: "'net \<Rightarrow> state_t list \<Rightarrow> real mat \<times> real list"
  train_step :: "'net \<Rightarrow> state_t list \<Rightarrow> real mat \<Rightarrow> real list \<Rightarrow> real \<Rightarrow> (real \<times> real) \<times> 'net"

text \<open>
  What the pipeline writes to its logger and the models it saves, in order; elapsed
  times and the explained variances of line 174 to 179, which only go into the log
  line, are left out.
\<close>

datatype event =
    LogSelfPlayError nat string
  | LogWinner int string
  | LogBufferLength nat nat
  | LogEarlyStopping nat int
  | LogPolicyUpdate real real real real
  | LogEvaluation int nat nat nat
  | LogCollectionCost
  | LogBatch nat nat nat
  | LogTrainBatchCost
  | SaveCurrentModel
  | LogCurrentBatch nat
  | LogNewBest
  | SaveBestModel nat

record ('net, 'w) pipeline =
  board_width :: nat
  board_height :: nat
  learn_rate :: real
  lr_multiplier :: real
  buffer_size :: nat
  batch_size :: nat
  data_buffer :: "train_sample list"
  epochs :: int
  kl_targ :: real
  check_freq :: int
  game_batch_num :: int
  best_win_ratio :: real
  pure_mcts_playout_num :: int
  training_data :: "string list"
  policy_value_net :: 'net
  episode_len :: nat
  world :: 'w
  logged :: "event list"

record config =
  conf_board_width :: nat
  conf_board_height :: nat
  conf_learn_rate :: real
  conf_lr_multiplier :: real
  conf_buffer_size :: nat
  conf_batch_size :: nat
  conf_epochs :: int
  conf_kl_targ :: real
  conf_check_freq :: int
  conf_game_batch_num :: int
  conf_pure_mcts_playout_num :: int

text \<open>
  \<^verbatim>\<open>__init__\<close>: the shuffled listing of the training files, the network and the world
  are what the collaborators hand over at start-up.
\<close>

definition init :: "config \<Rightarrow> string list \<Rightarrow> 'net \<Rightarrow> 'w \<Rightarrow> ('net, 'w) pipeline" where
  "init conf files net w =
     \<lparr> board_width = conf_board_width conf,
       board_height = conf_board_height conf,
       learn_rate = conf_learn_rate conf,
       lr_multiplier = conf_lr_multiplier conf,
       buffer_size = conf_buffer_size conf,
       batch_size = conf_batch_size conf,
       data_buffer = [],
       epochs = conf_epochs conf,
       kl_targ = conf_kl_targ conf,
       check_freq = conf_check_freq conf,
       game_batch_num = conf_game_batch_num conf,
       best_win_ratio = 0,
       pure_mcts_playout_num = conf_pure_mcts_playout_num conf,
       training_data = files,
       policy_value_net = net,
       episode_len = 0,
       world = w,
       logged = [] \<rparr>"

subsection \<open>\<^verbatim>\<open>collect_selfplay_data\<close>\<close>

text \<open>
  Lines 114 to 128. \<open>selfplay_games\<close> is the loop over \<^verbatim>\<open>range(n_games)\<close>: one
  self-play game on the training file at \<^verbatim>\<open>data_index\<close>, its record augmented and
  appended to the buffer. The index is \<^verbatim>\<open>training_index % self._length_train_data\<close>,
  which raises \<^verbatim>\<open>ZeroDivisionError\<close> when there is no training file.
\<close>

fun selfplay_games ::
  "('net, 'w) collaborators \<Rightarrow> nat \<Rightarrow> nat \<Rightarrow> nat \<Rightarrow> ('net, 'w) pipeline
     \<Rightarrow> py_error + ('net, 'w) pipeline" where
  "selfplay_games env training_index data_index 0 st = Inr st"
| "selfplay_games env training_index data_index (Suc n) st =
     (let file_name = training_data st ! data_index;
          ((warning, winner, play_data), w') =
             start_self_play env (world st) (policy_value_net st) file_name;
          lg = logged st @ (if warning then [LogSelfPlayError training_index file_name] else [])
                 @ [LogWinner winner file_name]
      in case get_equi_data (board_height st) (board_width st) play_data of
           Inl e \<Rightarrow> Inl e
         | Inr equi \<Rightarrow>
             selfplay_games env training_index data_index n
               (st\<lparr> world := w', logged := lg, episode_len := length play_data,
                    data_buffer := deque_extend (buffer_size st) (data_buffer st) equi \<rparr>))"

definition collect_selfplay_data ::
  "('net, 'w) collaborators \<Rightarrow> nat \<Rightarrow> nat \<Rightarrow> ('net, 'w) pipeline
     \<Rightarrow> py_error + ('net, 'w) pipeline" where
  "collect_selfplay_data env n_games training_index st =
     (if length (training_data st) = 0 then Inl ZeroDivisionError
      else case selfplay_games env training_index
                  (training_index mod length (training_data st)) n_games st of
             Inl e \<Rightarrow> Inl e
           | Inr st' \<Rightarrow>
               Inr (st'\<lparr> logged := logged st'
                          @ [LogBufferLength training_index (length (data_buffer st'))] \<rparr>))"

subsection \<open>\<^verbatim>\<open>policy_update\<close>\<close>

text \<open>
  Lines 146 to 192. \<open>kl_divergence\<close> is the expression of lines 161 to 164,
  \<open>train_epoch\<close> the body of the loop up to there, \<open>epoch_loop\<close> the loop over
  \<^verbatim>\<open>range(self.epochs)\<close> with its \<^verbatim>\<open>break\<close>, and \<open>adapt_lr_multiplier\<close> lines 169 to
  172. \<^verbatim>\<open>random.sample\<close> raises \<^verbatim>\<open>ValueError\<close> when the batch is larger than the buffer;
  reading \<^verbatim>\<open>kl\<close> in line 169 raises \<^verbatim>\<open>UnboundLocalError\<close> when the loop has not run.
\<close>

definition np_mean :: "real list \<Rightarrow> real" where
  "np_mean xs = sum_list xs / real (length xs)"

definition kl_divergence :: "real mat \<Rightarrow> real mat \<Rightarrow> real" where
  "kl_divergence old_probs new_probs =
     np_mean (map2 (\<lambda>old_row new_row.
                sum_list (map2 (\<lambda>p q. p * (ln (p + 1 / 10 ^ 10) - ln (q + 1 / 10 ^ 10)))
                               old_row new_row))
              old_probs new_probs)"

text \<open>
  On an empty batch NumPy's mean is \<^verbatim>\<open>nan\<close>; here it is \<open>0 / 0 = 0\<close>. Rows of
  different lengths, which NumPy refuses, are cut to the shorter one by \<open>map2\<close>; the
  network returns one row of probabilities for each state of the batch.
\<close>

text \<open>
  The values an epoch binds: \<^verbatim>\<open>loss\<close>, \<^verbatim>\<open>entropy\<close>, \<^verbatim>\<open>new_v\<close> and \<^verbatim>\<open>kl\<close>. Before the
  first epoch they are unbound (\<open>None\<close>).
\<close>

type_synonym epoch_vars = "real \<times> real \<times> real list \<times> real"

definition train_epoch ::
  "('net, 'w) collaborators \<Rightarrow> state_t list \<Rightarrow> real mat \<Rightarrow> real list \<Rightarrow> real \<Rightarrow> real mat
     \<Rightarrow> 'net \<Rightarrow> epoch_vars \<times> 'net" where
  "train_epoch env state_batch mcts_probs_batch winner_batch lr old_probs net =
     (let ((loss, entropy), net') =
            train_step env net state_batch mcts_probs_batch winner_batch lr;
          (new_probs, new_v) = policy_value env net' state_batch;
          kl = kl_divergence old_probs new_probs
      in ((loss, entropy, new_v, kl), net'))"

fun epoch_loop ::
  "('net \<Rightarrow> epoch_vars \<times> 'net) \<Rightarrow> real \<Rightarrow> int \<Rightarrow> nat \<Rightarrow> nat \<Rightarrow> 'net \<Rightarrow> epoch_vars option
     \<Rightarrow> event list \<Rightarrow> epoch_vars option \<times> 'net \<times> event list" where
  "epoch_loop epoch targ E 0 i net vars lg = (vars, net, lg)"
| "epoch_loop epoch targ E (Suc n) i net vars lg =
     (let (vars', net') = epoch net; kl = snd (snd (snd vars')) in
      if kl > targ * 4 then (Some vars', net', lg @ [LogEarlyStopping i E])
      else epoch_loop epoch targ E n (Suc i) net' (Some vars') lg)"

definition adapt_lr_multiplier :: "real \<Rightarrow> real \<Rightarrow> real \<Rightarrow> real" where
  "adapt_lr_multiplier targ kl m =
     (if kl > targ * 2 \<and> m > 5 / 100 then m / (15 / 10)
      else if kl < targ / 2 \<and> m < 20 then m * (15 / 10)
      else m)"

definition policy_update ::
  "('net, 'w) collaborators \<Rightarrow> ('net, 'w) pipeline
     \<Rightarrow> py_error + (('net, 'w) pipeline \<times> real \<times> real)" where
  "policy_update env st =
     (if batch_size st > length (data_buffer st) then Inl ValueError
      else
        let (mini_batch, w') = random_sample env (world st) (data_buffer st) (batch_size st);
            state_batch = map fst mini_batch;
            mcts_probs_batch = map (\<lambda>d. fst (snd d)) mini_batch;
            winner_batch = map (\<lambda>d. snd (snd d)) mini_batch;
            (old_probs, old_v) = policy_value env (policy_value_net st) state_batch;
            lr = learn_rate st * lr_multiplier st;
            (vars, net', lg) =
               epoch_loop (train_epoch env state_batch mcts_probs_batch winner_batch lr old_probs)
                 (kl_targ st) (epochs st) (nat (epochs st)) 0 (policy_value_net st) None []
        in case vars of
             None \<Rightarrow> Inl UnboundLocalError
           | Some (loss, entropy, new_v, kl) \<Rightarrow>
               Inr (st\<lparr> world := w', policy_value_net := net',
                        lr_multiplier := adapt_lr_multiplier (kl_targ st) kl (lr_multiplier st),
                        logged := logged st @ lg @ [LogPolicyUpdate kl lr loss entropy] \<rparr>,
                    loss, entropy))"

text \<open>
  The epochs of one update, described from outside the loop: the mini-batch drawn for
  the state, the network after \<open>k\<close> training steps on it, and the loss, entropy and KL
  divergence measured in epoch \<open>k\<close> (counted from 1). The KL divergence of every epoch
  compares with the probabilities of the network as it was before the first step.
\<close>

definition mini_batch_of :: "('net, 'w) collaborators \<Rightarrow> ('net, 'w) pipeline \<Rightarrow> train_sample list" where
  "mini_batch_of env st = fst (random_sample env (world st) (data_buffer st) (batch_size st))"

definition train_once :: "('net, 'w) collaborators \<Rightarrow> ('net, 'w) pipeline \<Rightarrow> 'net \<Rightarrow> (real \<times> real) \<times> 'net" where
  "train_once env st net =
     train_step env net (map fst (mini_batch_of env st))
       (map (\<lambda>d. fst (snd d)) (mini_batch_of env st))
       (map (\<lambda>d. snd (snd d)) (mini_batch_of env st))
       (learn_rate st * lr_multiplier st)"

primrec net_trained :: "('net, 'w) collaborators \<Rightarrow> ('net, 'w) pipeline \<Rightarrow> nat \<Rightarrow> 'net" where
  "net_trained env st 0 = policy_value_net st"
| "net_trained env st (Suc k) = snd (train_once env st (net_trained env st k))"

definition loss_epoch :: "('net, 'w) collaborators \<Rightarrow> ('net, 'w) pipeline \<Rightarrow> nat \<Rightarrow> real" where
  "loss_epoch env st k = fst (fst (train_once env st (net_trained env st (k - 1))))"

definition entropy_epoch :: "('net, 'w) collaborators \<Rightarrow> ('net, 'w) pipeline \<Rightarrow> nat \<Rightarrow> real" where
  "entropy_epoch env st k = snd (fst (train_once env st (net_trained env st (k - 1))))"

definition kl_epoch :: "('net, 'w) collaborators \<Rightarrow> ('net, 'w) pipeline \<Rightarrow> nat \<Rightarrow> real" where
  "kl_epoch env st k =
     kl_divergence
       (fst (policy_value env (policy_value_net st) (map fst (mini_batch_of env st))))
       (fst (policy_value env (net_trained env st k) (map fst (mini_batch_of env st))))"

text \<open>
  \<open>epochs_performed env st m\<close>: the loop of an update on \<open>st\<close> runs exactly \<open>m\<close> epochs.
  It runs at least one and at most \<^verbatim>\<open>epochs\<close>, no epoch before the last measured a KL
  divergence above four times the target, and when it ran fewer than \<^verbatim>\<open>epochs\<close> the
  last one did.
\<close>

definition epochs_performed :: "('net, 'w) collaborators \<Rightarrow> ('net, 'w) pipeline \<Rightarrow> nat \<Rightarrow> bool" where
  "epochs_performed env st m \<longleftrightarrow>
     1 \<le> m \<and> int m \<le> epochs st
     \<and> (\<forall>k \<in> {1..<m}. \<not> kl_epoch env st k > kl_targ st * 4)
     \<and> (int m < epochs st \<longrightarrow> kl_epoch env st m > kl_targ st * 4)"

text \<open>
  For the proofs about the loop: the network after \<open>k\<close> runs of a loop body, the values
  the \<open>k\<close>-th run binds, the KL divergence among them, and the loop body of an update
  on a given state. \<open>stops_at epoch targ n net m\<close> says that \<open>m\<close> is where a loop of at
  most \<open>n\<close> runs stops.
\<close>

definition after_epochs :: "('net \<Rightarrow> epoch_vars \<times> 'net) \<Rightarrow> 'net \<Rightarrow> nat \<Rightarrow> 'net" where
  "after_epochs epoch net k = ((\<lambda>x. snd (epoch x)) ^^ k) net"

definition vars_of_epoch :: "('net \<Rightarrow> epoch_vars \<times> 'net) \<Rightarrow> 'net \<Rightarrow> nat \<Rightarrow> epoch_vars" where
  "vars_of_epoch epoch net k = fst (epoch (after_epochs epoch net (k - 1)))"

definition kl_of :: "epoch_vars \<Rightarrow> real" where
  "kl_of vars = snd (snd (snd vars))"

definition stops_at :: "('net \<Rightarrow> epoch_vars \<times> 'net) \<Rightarrow> real \<Rightarrow> nat \<Rightarrow> 'net \<Rightarrow> nat \<Rightarrow> bool" where
  "stops_at epoch targ n net m \<longleftrightarrow>
     m \<le> n \<and> (0 < n \<longrightarrow> 0 < m)
     \<and> (\<forall>k \<in> {1..<m}. \<not> kl_of (vars_of_epoch epoch net k) > targ * 4)
     \<and> (m < n \<longrightarrow> kl_of (vars_of_epoch epoch net m) > targ * 4)"

definition epoch_of :: "('net, 'w) collaborators \<Rightarrow> ('net, 'w) pipeline \<Rightarrow> 'net \<Rightarrow> epoch_vars \<times> 'net" where
  "epoch_of env st =
     train_epoch env (map fst (mini_batch_of env st))
       (map (\<lambda>d. fst (snd d)) (mini_batch_of env st))
       (map (\<lambda>d. snd (snd d)) (mini_batch_of env st))
       (learn_rate st * lr_multiplier st)
       (fst (policy_value env (policy_value_net st) (map fst (mini_batch_of env st))))"

subsection \<open>\<^verbatim>\<open>policy_evaluate\<close>\<close>

text \<open>
  Lines 194 to 215. \<open>eval_games\<close> is the loop over \<^verbatim>\<open>range(n_games)\<close>. \<^verbatim>\<open>win_cnt\<close> is
  a \<^verbatim>\<open>defaultdict(int)\<close>: a count for every key, 0 to begin with. The division by
  \<^verbatim>\<open>n_games\<close> in line 211 raises \<^verbatim>\<open>ZeroDivisionError\<close> when \<^verbatim>\<open>n_games\<close> is 0.
\<close>

fun eval_games ::
  "('net, 'w) collaborators \<Rightarrow> 'net \<Rightarrow> int \<Rightarrow> nat \<Rightarrow> nat \<Rightarrow> (int \<Rightarrow> nat) \<Rightarrow> 'w
     \<Rightarrow> (int \<Rightarrow> nat) \<times> 'w" where
  "eval_games env net playouts 0 i win_cnt w = (win_cnt, w)"
| "eval_games env net playouts (Suc n) i win_cnt w =
     (let (winner, w') = start_play env w net playouts (i mod 2) in
      eval_games env net playouts n (Suc i) (win_cnt(winner := win_cnt winner + 1)) w')"

definition policy_evaluate ::
  "('net, 'w) collaborators \<Rightarrow> nat \<Rightarrow> ('net, 'w) pipeline
     \<Rightarrow> py_error + (real \<times> ('net, 'w) pipeline)" where
  "policy_evaluate env n_games st =
     (let (win_cnt, w') =
            eval_games env (policy_value_net st) (pure_mcts_playout_num st) n_games 0
              (\<lambda>_. 0) (world st)
      in if n_games = 0 then Inl ZeroDivisionError
         else Inr ((real (win_cnt 1) + (5 / 10) * real (win_cnt (- 1))) / real n_games,
                   st\<lparr> world := w',
                       logged := logged st @ [LogEvaluation (pure_mcts_playout_num st)
                                    (win_cnt 1) (win_cnt 2) (win_cnt (- 1))] \<rparr>))"

text \<open>
  The games of one evaluation, described from outside the loop: the world before game
  \<open>j\<close> (counted from 0), and the winner of game \<open>j\<close>, which player \<open>j mod 2\<close> starts.
\<close>

primrec world_before ::
  "('net, 'w) collaborators \<Rightarrow> 'net \<Rightarrow> int \<Rightarrow> 'w \<Rightarrow> nat \<Rightarrow> 'w" where
  "world_before env net playouts w 0 = w"
| "world_before env net playouts w (Suc j) =
     snd (start_play env (world_before env net playouts w j) net playouts (j mod 2))"

definition winner_of ::
  "('net, 'w) collaborators \<Rightarrow> 'net \<Rightarrow> int \<Rightarrow> 'w \<Rightarrow> nat \<Rightarrow> int" where
  "winner_of env net playouts w j =
     fst (start_play env (world_before env net playouts w j) net playouts (j mod 2))"

definition games_won_by ::
  "('net, 'w) collaborators \<Rightarrow> 'net \<Rightarrow> int \<Rightarrow> 'w \<Rightarrow> nat \<Rightarrow> int \<Rightarrow> nat" where
  "games_won_by env net playouts w n_games x =
     length (filter (\<lambda>j. winner_of env net playouts w j = x) [0..<n_games])"

subsection \<open>\<^verbatim>\<open>run\<close>\<close>

text \<open>
  Lines 217 to 247. One cycle of the loop (\<open>run_cycle\<close>) is the collection of one game
  (line 222), the update when the buffer holds more than one batch (\<open>update_phase\<close>,
  lines 226 to 229), and the checks (\<open>check_phase\<close>, lines 232 to 245). An exception
  leaves \<^verbatim>\<open>run\<close>, and a modulus by a \<^verbatim>\<open>check_freq\<close> of 0 raises one. The
  \<^verbatim>\<open>KeyboardInterrupt\<close> that \<^verbatim>\<open>run\<close> catches comes from outside and is not modelled: a
  run that is interrupted after some cycles is a run of fewer cycles.
\<close>

definition update_phase ::
  "('net, 'w) collaborators \<Rightarrow> ('net, 'w) pipeline \<Rightarrow> py_error + ('net, 'w) pipeline" where
  "update_phase env st =
     (if length (data_buffer st) > batch_size st then
        case policy_update env st of
          Inl e \<Rightarrow> Inl e
        | Inr (st', loss, entropy) \<Rightarrow> Inr (st'\<lparr> logged := logged st' @ [LogTrainBatchCost] \<rparr>)
      else Inr st)"

definition check_phase ::
  "('net, 'w) collaborators \<Rightarrow> nat \<Rightarrow> ('net, 'w) pipeline \<Rightarrow> py_error + ('net, 'w) pipeline" where
  "check_phase env i st =
     (let st1 = (if (int i + 1) mod 50 = 0
                 then st\<lparr> logged := logged st @ [SaveCurrentModel] \<rparr> else st)
      in if check_freq st1 = 0 then Inl ZeroDivisionError
         else if (int i + 1) mod check_freq st1 = 0 then
           case policy_evaluate env 10 (st1\<lparr> logged := logged st1 @ [LogCurrentBatch (i + 1)] \<rparr>) of
             Inl e \<Rightarrow> Inl e
           | Inr (win_ratio, st2) \<Rightarrow>
               if win_ratio > best_win_ratio st2 then
                 let st3 = st2\<lparr> best_win_ratio := win_ratio,
                                logged := logged st2 @ [LogNewBest, SaveBestModel i] \<rparr>
                 in if best_win_ratio st3 \<ge> 98 / 100 \<and> pure_mcts_playout_num st3 < 8000
                    then Inr (st3\<lparr> pure_mcts_playout_num := pure_mcts_playout_num st3 + 1000,
                                   best_win_ratio := 0 \<rparr>)
                    else Inr st3
               else Inr st2
         else Inr st1)"

definition run_cycle ::
  "('net, 'w) collaborators \<Rightarrow> nat \<Rightarrow> ('net, 'w) pipeline \<Rightarrow> py_error + ('net, 'w) pipeline" where
  "run_cycle env i st =
     (case collect_selfplay_data env 1 i st of
        Inl e \<Rightarrow> Inl e
      | Inr st1 \<Rightarrow>
          (case update_phase env
                  (st1\<lparr> logged := logged st1
                          @ [LogCollectionCost,
                             LogBatch (i + 1) (episode_len st1) (length (data_buffer st1))] \<rparr>) of
             Inl e \<Rightarrow> Inl e
           | Inr st2 \<Rightarrow> check_phase env i st2))"

text \<open>\<open>run_from env i n st\<close> runs the \<open>n\<close> cycles \<open>i\<close>, \<open>i + 1\<close>, ... from \<open>st\<close>.\<close>

fun run_from ::
  "('net, 'w) collaborators \<Rightarrow> nat \<Rightarrow> nat \<Rightarrow> ('net, 'w) pipeline \<Rightarrow> py_error + ('net, 'w) pipeline" where
  "run_from env i 0 st = Inr st"
| "run_from env i (Suc n) st =
     (case run_cycle env i st of
        Inl e \<Rightarrow> Inl e
      | Inr st' \<Rightarrow> run_from env (Suc i) n st')"

definition run :: "('net, 'w) collaborators \<Rightarrow> ('net, 'w) pipeline \<Rightarrow> py_error + ('net, 'w) pipeline" where
  "run env st = run_from env 0 (nat (game_batch_num st)) st"

text \<open>
  A cycle, described from outside: \<open>before_checks\<close> is the collection and the update of
  cycle \<open>i\<close>, whose result the checks start from, and \<open>win_ratio_of env st n\<close> is the
  win ratio that an evaluation over \<open>n\<close> games returns when it starts in \<open>st\<close>.
\<close>

definition win_ratio_of :: "('net, 'w) collaborators \<Rightarrow> ('net, 'w) pipeline \<Rightarrow> nat \<Rightarrow> real" where
  "win_ratio_of env st n_games =
     (real (games_won_by env (policy_value_net st) (pure_mcts_playout_num st) (world st) n_games 1)
      + (5 / 10) * real (games_won_by env (policy_value_net st) (pure_mcts_playout_num st) (world st) n_games (- 1)))
     / real n_games"

definition before_checks ::
  "('net, 'w) collaborators \<Rightarrow> nat \<Rightarrow> ('net, 'w) pipeline \<Rightarrow> py_error + ('net, 'w) pipeline" where
  "before_checks env i st =
     (case collect_selfplay_data env 1 i st of
        Inl e \<Rightarrow> Inl e
      | Inr st1 \<Rightarrow>
          update_phase env
            (st1\<lparr> logged := logged st1
                    @ [LogCollectionCost,
                       LogBatch (i + 1) (episode_len st1) (length (data_buffer st1))] \<rparr>))"

text \<open>
  \<open>quiet st st'\<close>: a step from \<open>st\<close> to \<open>st'\<close> that leaves the training state and the
  configuration alone and logs no training batch.
\<close>

definition quiet :: "('net, 'w) pipeline \<Rightarrow> ('net, 'w) pipeline \<Rightarrow> bool" where
  "quiet st st' \<longleftrightarrow>
     lr_multiplier st' = lr_multiplier st \<and> best_win_ratio st' = best_win_ratio st
     \<and> pure_mcts_playout_num st' = pure_mcts_playout_num st
     \<and> policy_value_net st' = policy_value_net st
     \<and> batch_size st' = batch_size st \<and> check_freq st' = check_freq st
     \<and> (\<exists>evs. logged st' = logged st @ evs \<and> LogTrainBatchCost \<notin> set evs)"

text \<open>The best win ratio and the multiplier after the first \<open>n\<close> cycles of a run.\<close>

definition lr_after :: "('net, 'w) collaborators \<Rightarrow> ('net, 'w) pipeline \<Rightarrow> nat \<Rightarrow> py_error + real" where
  "lr_after env st n = map_sum id lr_multiplier (run_from env 0 n st)"

definition best_after :: "('net, 'w) collaborators \<Rightarrow> ('net, 'w) pipeline \<Rightarrow> nat \<Rightarrow> py_error + real" where
  "best_after env st n = map_sum id best_win_ratio (run_from env 0 n st)"

subsection \<open>A concrete pipeline\<close>

text \<open>
  A two by two board, one training file, and collaborators that are as simple as they
  can be: every self-play game has one position, the network answers every state with
  the same probabilities and only counts its training steps, the sample is the oldest
  part of the buffer, and the world counts the evaluation games: the learner wins the
  first five, loses the next five and wins all later ones.
\<close>

definition example_env :: "(nat, nat) collaborators" where
  "example_env =
     \<lparr> start_self_play = (\<lambda>w net file_name.
          ((False, 1, [([[[1, 0], [0, 0]]], [1, 0, 0, 0], 1)]), w)),
       start_play = (\<lambda>w net playouts start_player.
          (if w < 5 then 1 else if w < 10 then 2 else 1, Suc w)),
       random_sample = (\<lambda>w buf k. (take k buf, w)),
       policy_value = (\<lambda>net batch. (map (\<lambda>_. [1 / 2, 1 / 2, 0, 0]) batch, map (\<lambda>_. 0) batch)),
       train_step = (\<lambda>net state_batch mcts_probs_batch winner_batch lr.
          ((1 / real (Suc net), 1), Suc net)) \<rparr>"

definition example_conf :: config where
  "example_conf =
     \<lparr> conf_board_width = 2, conf_board_height = 2, conf_learn_rate = 2 / 1000,
       conf_lr_multiplier = 1, conf_buffer_size = 10000, conf_batch_size = 512,
       conf_epochs = 5, conf_kl_targ = 2 / 100, conf_check_freq = 1,
       conf_game_batch_num = 2, conf_pure_mcts_playout_num = 1000 \<rparr>"

definition example_state :: "(nat, nat) pipeline" where
  "example_state = init example_conf [''a.sgf''] 0 0"

text \<open>
  The same pipeline with batches of one sample, one epoch for each update and no
  evaluation in the first cycles; a state of it with two samples in the buffer and two
  epochs for each update; and a state of the first pipeline whose baseline is at 8000
  playouts.
\<close>

definition update_state :: "(nat, nat) pipeline" where
  "update_state = init (example_conf\<lparr> conf_batch_size := 1, conf_epochs := 1,
                          conf_check_freq := 1000, conf_game_batch_num := 8 \<rparr>) [''a.sgf''] 0 0"

definition filled_state :: "(nat, nat) pipeline" where
  "filled_state = update_state\<lparr> epochs := 2,
     data_buffer := [([[[1, 0], [0, 0]]], [1, 0, 0, 0], 1), ([[[0, 1], [0, 0]]], [0, 1, 0, 0], 1)] \<rparr>"

definition ceiling_state :: "(nat, nat) pipeline" where
  "ceiling_state = example_state\<lparr> pure_mcts_playout_num := 8000, best_win_ratio := 98 / 100 \<rparr>"

section \<open>Properties\<close>

subsection \<open>Augmentation\<close>

lemma concat_rows_of: "length v = h * w \<Longrightarrow> concat (rows_of h w v) = v"
proof (induction h arbitrary: v)
  case 0
  then show ?case by simp
next
  case (Suc h)
  have "length (drop w v) = h * w" using Suc.prems by simp
  then have "concat (rows_of h w (drop w v)) = drop w v" by (rule Suc.IH)
  then show ?case by simp
qed

lemma spec_rotated_4:
  "length p = h * w \<Longrightarrow> spec_rotated h w 4 (s, p, z) = (s, p, z)"
  by (simp add: spec_rotated_def spec_prob_board_def rot90_def flipud_def flatten_def
      concat_rows_of)

lemma flipud_fliplr_commute: "flipud (fliplr m) = fliplr (flipud m)"
  by (simp add: flipud_def fliplr_def rev_map)

lemma equi_rot_spec:
  assumes "length p = h * w"
  shows "equi_rot h w (s, p, z) acc k =
           Inr (acc @ [spec_rotated h w k (s, p, z), spec_mirrored h w k (s, p, z)])"
  using assms
  by (simp add: equi_rot_def reshape_def spec_rotated_def spec_mirrored_def
      spec_prob_board_def flipud_fliplr_commute Let_def)

lemma equi_rots_spec:
  assumes "length p = h * w"
  shows "equi_rots h w (s, p, z) ks acc =
           Inr (acc @ concat (map (\<lambda>k. [spec_rotated h w k (s, p, z), spec_mirrored h w k (s, p, z)]) ks))"
proof (induction ks arbitrary: acc)
  case Nil
  show ?case by simp
next
  case (Cons k ks)
  show ?case by (simp add: equi_rot_spec [OF assms] Cons.IH)
qed

lemma equi_loop_spec:
  "well_shaped h w play_data \<Longrightarrow>
     equi_loop h w play_data acc = Inr (acc @ spec_augment h w play_data)"
proof (induction play_data arbitrary: acc)
  case Nil
  show ?case by (simp add: spec_augment_def)
next
  case (Cons smp play_data)
  obtain s p z where smp: "smp = (s, p, z)" by (cases smp)
  from Cons.prems have len: "length p = h * w" and rest: "well_shaped h w play_data"
    by (simp_all add: well_shaped_def smp)
  have step: "equi_loop h w play_data acc' = Inr (acc' @ spec_augment h w play_data)" for acc'
    using Cons.IH [OF rest] .
  have "equi_loop h w (smp # play_data) acc =
          Inr ((acc @ concat (map (\<lambda>k. [spec_rotated h w k smp, spec_mirrored h w k smp]) [1, 2, 3, 4]))
               @ spec_augment h w play_data)"
    unfolding smp equi_loop.simps equi_rots_spec [OF len] sum.case step ..
  then show ?case by (simp add: spec_augment_def)
qed

lemma length_spec_augment: "length (spec_augment h w play_data) = 8 * length play_data"
  by (induction play_data) (simp_all add: spec_augment_def)

lemma spec_augment_outcome:
  "j < 8 * length play_data \<Longrightarrow>
     snd (snd (spec_augment h w play_data ! j)) = snd (snd (play_data ! (j div 8)))"
proof (induction play_data arbitrary: j)
  case Nil
  then show ?case by simp
next
  case (Cons smp play_data)
  obtain s p z where smp: "smp = (s, p, z)" by (cases smp)
  let ?blk = "concat (map (\<lambda>k. [spec_rotated h w k smp, spec_mirrored h w k smp]) [1, 2, 3, 4])"
  have app: "spec_augment h w (smp # play_data) = ?blk @ spec_augment h w play_data"
    by (simp add: spec_augment_def)
  have blk_len: "length ?blk = 8" by simp
  show ?case
  proof (cases "j < 8")
    case True
    then have "j \<in> {0, 1, 2, 3, 4, 5, 6, 7}" by auto
    then have "snd (snd (?blk ! j)) = z"
      by (auto simp: smp spec_rotated_def spec_mirrored_def)
    moreover have "spec_augment h w (smp # play_data) ! j = ?blk ! j"
      unfolding app using True blk_len by (simp only: nth_append if_True)
    ultimately show ?thesis using True by (simp add: smp)
  next
    case False
    then have j8: "8 \<le> j" by simp
    have "spec_augment h w (smp # play_data) ! j = spec_augment h w play_data ! (j - 8)"
      unfolding app using False blk_len by (simp only: nth_append if_False)
    moreover have "j - 8 < 8 * length play_data" using Cons.prems j8 by simp
    moreover have "j div 8 = Suc ((j - 8) div 8)" using j8 by (simp add: le_div_geq)
    ultimately show ?thesis using Cons.IH [of "j - 8"] by simp
  qed
qed

text \<open>
  Claim C1. For a game record whose probability vectors have \<open>H * W\<close> entries,
  \<^verbatim>\<open>get_equi_data\<close> returns without error eight samples for every input sample: for the
  rotation steps 1, 2, 3, 4 in turn the rotated sample (every channel of the state
  rotated, the probability vector reshaped, flipped vertically, rotated, flipped
  vertically again and flattened) followed by the horizontal mirror image of that
  rotated sample; output \<open>j\<close> carries the outcome of input \<open>j div 8\<close>.
\<close>

theorem get_equi_data_augments:
  assumes "well_shaped H W play_data"
  shows "get_equi_data H W play_data = Inr (spec_augment H W play_data)
         \<and> length (spec_augment H W play_data) = 8 * length play_data
         \<and> (\<forall>j. j < 8 * length play_data \<longrightarrow>
              snd (snd (spec_augment H W play_data ! j)) = snd (snd (play_data ! (j div 8))))"
  using equi_loop_spec [OF assms, of "[]"]
  by (simp add: get_equi_data_def length_spec_augment spec_augment_outcome)

theorem get_equi_data_augments_witness:
  "get_equi_data 2 2 [([[[1, 2], [3, 4 :: nat]]], [10, 20, 30, 40 :: nat], True)] =
     Inr [([[[2, 4], [1, 3]]], [30, 10, 40, 20], True),
          ([[[4, 2], [3, 1]]], [10, 30, 20, 40], True),
          ([[[4, 3], [2, 1]]], [40, 30, 20, 10], True),
          ([[[3, 4], [1, 2]]], [30, 40, 10, 20], True),
          ([[[3, 1], [4, 2]]], [20, 40, 10, 30], True),
          ([[[1, 3], [2, 4]]], [40, 20, 30, 10], True),
          ([[[1, 2], [3, 4]]], [10, 20, 30, 40], True),
          ([[[2, 1], [4, 3]]], [20, 10, 40, 30], True)]"
proof -
  have "well_shaped 2 2 [([[[1, 2], [3, 4 :: nat]]], [10, 20, 30, 40 :: nat], True)]"
    by (simp add: well_shaped_def)
  from get_equi_data_augments [OF this, THEN conjunct1] show ?thesis
    by (simp add: spec_augment_def spec_rotated_def spec_mirrored_def spec_prob_board_def
        rot90_def flipud_def fliplr_def flatten_def numeral_2_eq_2)
qed

subsection \<open>Replay buffer\<close>

lemma deque_extend_Cons:
  "deque_extend C d (x # xs) = deque_extend C (deque_append C d x) xs"
  by (simp add: deque_extend_def)

lemma deque_extend_drop:
  "length d \<le> C \<Longrightarrow> deque_extend C d xs = drop (length d + length xs - C) (d @ xs)"
proof (induction xs arbitrary: d)
  case Nil
  then show ?case by (simp add: deque_extend_def)
next
  case (Cons x xs)
  show ?case
  proof (cases "length d < C")
    case True
    then have app: "deque_append C d x = d @ [x]" by (simp add: deque_append_def)
    have "length (d @ [x]) \<le> C" using True by simp
    from Cons.IH [OF this] show ?thesis by (simp add: deque_extend_Cons app)
  next
    case False
    with Cons.prems have full: "length d = C" by simp
    show ?thesis
    proof (cases d)
      case Nil
      with full have "C = 0" by simp
      moreover have "deque_append 0 [] x = []" by (simp add: deque_append_def)
      moreover have "deque_extend 0 [] xs = drop (length xs) xs"
        using Cons.IH [of "[]"] \<open>C = 0\<close> by simp
      ultimately show ?thesis using Nil by (simp add: deque_extend_Cons)
    next
      case (Cons a d0)
      then have app: "deque_append C d x = d0 @ [x]" using full by (simp add: deque_append_def)
      have C: "C = Suc (length d0)" using Cons full by simp
      have "length (d0 @ [x]) \<le> C" by (simp add: C)
      from Cons.IH [OF this] have ih: "deque_extend C (d0 @ [x]) xs = drop (length xs) (d0 @ x # xs)"
        by (simp add: C)
      have "deque_extend C d (x # xs) = deque_extend C (d0 @ [x]) xs"
        by (simp only: deque_extend_Cons app)
      also note ih
      also have "drop (length xs) (d0 @ x # xs) = drop (length d + length (x # xs) - C) (d @ x # xs)"
        by (simp add: Cons C)
      finally show ?thesis .
    qed
  qed
qed

lemma extend_calls_gen:
  "foldl (deque_extend C) d calls = deque_extend C d (concat calls)"
  by (induction calls arbitrary: d) (simp_all add: deque_extend_def)

lemma extend_calls_concat: "extend_calls C calls = deque_extend C [] (concat calls)"
  by (simp add: extend_calls_def extend_calls_gen)

lemma extend_calls_drop:
  "extend_calls C calls = drop (length (concat calls) - C) (concat calls)"
  by (simp add: extend_calls_concat deque_extend_drop)

text \<open>
  Claim C2. When the \<^verbatim>\<open>extend\<close> calls on the initially empty buffer insert more than
  \<open>C\<close> samples in total, the buffer then holds exactly \<open>C\<close> samples, namely the last
  \<open>C\<close> inserted ones in their order of insertion; and the buffer never holds more than
  \<open>C\<close> samples, neither after any number of the calls nor after any number of single
  insertions.
\<close>

theorem extend_calls_bounded:
  assumes "C < length (concat calls)"
  shows "length (extend_calls C calls) = C
         \<and> extend_calls C calls = drop (length (concat calls) - C) (concat calls)
         \<and> (\<forall>k. length (extend_calls C (take k calls)) \<le> C)
         \<and> (\<forall>n. length (deque_extend C [] (take n (concat calls))) \<le> C)"
proof -
  have a: "extend_calls C calls = drop (length (concat calls) - C) (concat calls)"
    by (rule extend_calls_drop)
  have b: "length (extend_calls C calls) = C" using assms by (simp add: a)
  have c: "length (extend_calls C (take k calls)) \<le> C" for k
    by (simp add: extend_calls_drop)
  have d: "length (deque_extend C [] (take n (concat calls))) \<le> C" for n
    by (simp add: deque_extend_drop)
  from a b c d show ?thesis by blast
qed

theorem extend_calls_bounded_witness:
  "extend_calls 3 [[1, 2 :: nat], [3, 4], [5]] = [3, 4, 5]
   \<and> length (extend_calls 3 [[1, 2 :: nat], [3, 4], [5]]) = 3
   \<and> length (extend_calls 3 (take 2 [[1, 2 :: nat], [3, 4], [5]])) \<le> 3"
proof -
  have "3 < length (concat [[1, 2 :: nat], [3, 4], [5]])" by simp
  from extend_calls_bounded [OF this]
  have "length (extend_calls 3 [[1, 2 :: nat], [3, 4], [5]]) = 3"
    and "extend_calls 3 [[1, 2 :: nat], [3, 4], [5]] =
           drop (length (concat [[1, 2 :: nat], [3, 4], [5]]) - 3) (concat [[1, 2 :: nat], [3, 4], [5]])"
    and "length (extend_calls 3 (take 2 [[1, 2 :: nat], [3, 4], [5]])) \<le> 3"
    by blast+
  then show ?thesis by simp
qed

subsection \<open>The epoch loop of a policy update\<close>

lemma after_epochs_0: "after_epochs epoch net 0 = net"
  by (simp add: after_epochs_def)

lemma after_epochs_Suc: "after_epochs epoch net (Suc k) = snd (epoch (after_epochs epoch net k))"
  by (simp add: after_epochs_def)

lemma after_epochs_shift:
  "after_epochs epoch (snd (epoch net)) k = after_epochs epoch net (Suc k)"
  by (induction k) (simp_all add: after_epochs_def)

lemma vars_of_epoch_1: "vars_of_epoch epoch net (Suc 0) = fst (epoch net)"
  by (simp add: vars_of_epoch_def after_epochs_0)

lemma vars_of_epoch_shift:
  "0 < k \<Longrightarrow> vars_of_epoch epoch (snd (epoch net)) k = vars_of_epoch epoch net (Suc k)"
  by (cases k) (simp_all add: vars_of_epoch_def after_epochs_shift)

lemma stops_at_first:
  "kl_of (fst (epoch net)) > targ * 4 \<Longrightarrow> stops_at epoch targ (Suc n) net (Suc 0)"
  by (simp add: stops_at_def vars_of_epoch_1)

lemma stops_at_last: "stops_at epoch targ 0 net 0"
  by (simp add: stops_at_def)

lemma stops_at_step:
  assumes low: "\<not> kl_of (fst (epoch net)) > targ * 4"
    and rest: "stops_at epoch targ n (snd (epoch net)) m"
    and pos: "n = 0 \<or> 0 < m"
  shows "stops_at epoch targ (Suc n) net (Suc m)"
proof -
  have le: "m \<le> n" using rest by (simp add: stops_at_def)
  have before: "\<not> kl_of (vars_of_epoch epoch net k) > targ * 4" if k: "k \<in> {1..<Suc m}" for k
  proof (cases "k = 1")
    case True
    then show ?thesis using low by (simp add: vars_of_epoch_1)
  next
    case False
    with k obtain j where j: "k = Suc j" "0 < j" "j < m" by (cases k) auto
    then have "j \<in> {1..<m}" by simp
    with rest have "\<not> kl_of (vars_of_epoch epoch (snd (epoch net)) j) > targ * 4"
      by (simp add: stops_at_def)
    then show ?thesis using j by (simp add: vars_of_epoch_shift)
  qed
  have last: "kl_of (vars_of_epoch epoch net (Suc m)) > targ * 4" if "Suc m < Suc n"
  proof -
    from that have "m < n" by simp
    then have "0 < m" using pos by auto
    moreover have "kl_of (vars_of_epoch epoch (snd (epoch net)) m) > targ * 4"
      using rest \<open>m < n\<close> by (simp add: stops_at_def)
    ultimately show ?thesis by (simp add: vars_of_epoch_shift)
  qed
  show ?thesis
    unfolding stops_at_def using le before last by blast
qed

lemma epoch_loop_char:
  "\<exists>m evs. stops_at epoch targ n net m
     \<and> epoch_loop epoch targ E n i net vars lg =
         (if m = 0 then vars else Some (vars_of_epoch epoch net m),
          after_epochs epoch net m, lg @ evs)
     \<and> LogTrainBatchCost \<notin> set evs"
proof (induction n arbitrary: i net vars lg)
  case 0
  have "epoch_loop epoch targ E 0 i net vars lg = (vars, after_epochs epoch net 0, lg @ [])"
    by (simp add: after_epochs_0)
  with stops_at_last [where epoch = epoch and targ = targ and net = net] show ?case by fastforce
next
  case (Suc n)
  obtain v net1 where ep: "epoch net = (v, net1)" by (cases "epoch net")
  show ?case
  proof (cases "kl_of v > targ * 4")
    case True
    then have "stops_at epoch targ (Suc n) net (Suc 0)"
      using stops_at_first [where epoch = epoch and net = net and targ = targ and n = n] ep by simp
    moreover have "epoch_loop epoch targ E (Suc n) i net vars lg =
        (if Suc 0 = 0 then vars else Some (vars_of_epoch epoch net (Suc 0)),
         after_epochs epoch net (Suc 0), lg @ [LogEarlyStopping i E])"
      using True ep by (simp add: vars_of_epoch_1 after_epochs_Suc after_epochs_0 kl_of_def)
    moreover have "LogTrainBatchCost \<notin> set [LogEarlyStopping i E]" by simp
    ultimately show ?thesis by blast
  next
    case False
    from Suc.IH [of net1 "Suc i" "Some v" lg]
    obtain m evs where m: "stops_at epoch targ n net1 m"
      and run: "epoch_loop epoch targ E n (Suc i) net1 (Some v) lg =
                 (if m = 0 then Some v else Some (vars_of_epoch epoch net1 m),
                  after_epochs epoch net1 m, lg @ evs)"
      and evs: "LogTrainBatchCost \<notin> set evs"
      by blast
    have pos: "n = 0 \<or> 0 < m" using m by (auto simp: stops_at_def)
    have st: "stops_at epoch targ (Suc n) net (Suc m)"
      using stops_at_step [where epoch = epoch and net = net and targ = targ and n = n and m = m]
        False m pos ep by simp
    have vars: "(if m = 0 then Some v else Some (vars_of_epoch epoch net1 m))
                  = Some (vars_of_epoch epoch net (Suc m))"
    proof (cases "m = 0")
      case True
      then show ?thesis using ep by (simp add: vars_of_epoch_1)
    next
      case False
      then show ?thesis using vars_of_epoch_shift [where k = m and epoch = epoch and net = net] ep by simp
    qed
    have net: "after_epochs epoch net1 m = after_epochs epoch net (Suc m)"
      using after_epochs_shift [where epoch = epoch and net = net and k = m] ep by simp
    have "epoch_loop epoch targ E (Suc n) i net vars lg =
            (if Suc m = 0 then vars else Some (vars_of_epoch epoch net (Suc m)),
             after_epochs epoch net (Suc m), lg @ evs)"
      using False ep run vars net by (simp add: kl_of_def)
    with st evs show ?thesis by blast
  qed
qed

lemma snd_epoch_of: "snd (epoch_of env st net) = snd (train_once env st net)"
  by (simp add: epoch_of_def train_epoch_def train_once_def split: prod.splits)

lemma fst_epoch_of:
  "fst (epoch_of env st net) =
     (fst (fst (train_once env st net)), snd (fst (train_once env st net)),
      snd (policy_value env (snd (train_once env st net)) (map fst (mini_batch_of env st))),
      kl_divergence
        (fst (policy_value env (policy_value_net st) (map fst (mini_batch_of env st))))
        (fst (policy_value env (snd (train_once env st net)) (map fst (mini_batch_of env st)))))"
  by (simp add: epoch_of_def train_epoch_def train_once_def split: prod.splits)

lemma after_epochs_epoch_of:
  "after_epochs (epoch_of env st) (policy_value_net st) k = net_trained env st k"
  by (induction k) (simp_all add: after_epochs_0 after_epochs_Suc snd_epoch_of)

lemma vars_of_epoch_epoch_of:
  assumes "0 < k"
  shows "vars_of_epoch (epoch_of env st) (policy_value_net st) k =
           (loss_epoch env st k, entropy_epoch env st k,
            snd (policy_value env (net_trained env st k) (map fst (mini_batch_of env st))),
            kl_epoch env st k)"
proof -
  from assms obtain j where k: "k = Suc j" by (cases k) auto
  show ?thesis
    by (simp add: k vars_of_epoch_def after_epochs_epoch_of fst_epoch_of loss_epoch_def
        entropy_epoch_def kl_epoch_def)
qed

lemma stops_at_epochs_performed:
  assumes "stops_at (epoch_of env st) (kl_targ st) (nat (epochs st)) (policy_value_net st) m"
    and "1 \<le> epochs st"
  shows "epochs_performed env st m"
proof -
  have kl: "kl_of (vars_of_epoch (epoch_of env st) (policy_value_net st) k) = kl_epoch env st k"
    if "0 < k" for k
    using that by (simp add: vars_of_epoch_epoch_of kl_of_def)
  from assms have m: "m \<le> nat (epochs st)" "0 < m"
    and before: "\<forall>k \<in> {1..<m}. \<not> kl_of (vars_of_epoch (epoch_of env st) (policy_value_net st) k) > kl_targ st * 4"
    and last: "m < nat (epochs st) \<longrightarrow> kl_of (vars_of_epoch (epoch_of env st) (policy_value_net st) m) > kl_targ st * 4"
    by (simp_all add: stops_at_def)
  have "\<forall>k \<in> {1..<m}. \<not> kl_epoch env st k > kl_targ st * 4"
    using before kl by simp
  moreover have "int m < epochs st \<longrightarrow> kl_epoch env st m > kl_targ st * 4"
    using last kl [OF m(2)] by auto
  moreover have "1 \<le> m" "int m \<le> epochs st" using m by simp_all
  ultimately show ?thesis by (simp add: epochs_performed_def)
qed

text \<open>The number of epochs a loop performs is determined.\<close>

lemma epochs_performed_unique:
  assumes "epochs_performed env st m" and "epochs_performed env st m'"
  shows "m = m'"
proof -
  have less: False if a: "epochs_performed env st a" and b: "epochs_performed env st b" and "a < b" for a b
  proof -
    from b have "int b \<le> epochs st" by (simp add: epochs_performed_def)
    with \<open>a < b\<close> have "int a < epochs st" by simp
    with a have "kl_epoch env st a > kl_targ st * 4" by (simp add: epochs_performed_def)
    moreover from a have "1 \<le> a" by (simp add: epochs_performed_def)
    with \<open>a < b\<close> have "a \<in> {1..<b}" by simp
    with b have "\<not> kl_epoch env st a > kl_targ st * 4" by (simp add: epochs_performed_def)
    ultimately show False by simp
  qed
  show ?thesis
  proof (rule ccontr)
    assume "m \<noteq> m'"
    then consider "m < m'" | "m' < m" by linarith
    then show False using less assms by cases blast+
  qed
qed

lemma policy_update_unfold:
  "policy_update env st =
     (if batch_size st > length (data_buffer st) then Inl ValueError
      else case epoch_loop (epoch_of env st) (kl_targ st) (epochs st) (nat (epochs st)) 0
                  (policy_value_net st) None [] of
             (vars, net', lg) \<Rightarrow>
               (case vars of
                  None \<Rightarrow> Inl UnboundLocalError
                | Some (loss, entropy, new_v, kl) \<Rightarrow>
                    Inr (st\<lparr> world := snd (random_sample env (world st) (data_buffer st) (batch_size st)),
                             policy_value_net := net',
                             lr_multiplier := adapt_lr_multiplier (kl_targ st) kl (lr_multiplier st),
                             logged := logged st @ lg
                               @ [LogPolicyUpdate kl (learn_rate st * lr_multiplier st) loss entropy] \<rparr>,
                         loss, entropy)))"
  by (simp add: policy_update_def epoch_of_def mini_batch_of_def Let_def case_prod_beta)

lemma policy_update_no_epoch:
  assumes "batch_size st \<le> length (data_buffer st)" and "epochs st \<le> 0"
  shows "policy_update env st = Inl UnboundLocalError"
  using assms by (simp add: policy_update_unfold)

lemma policy_update_epochs:
  assumes "batch_size st \<le> length (data_buffer st)" and "1 \<le> epochs st"
  shows "\<exists>m evs. epochs_performed env st m \<and> LogTrainBatchCost \<notin> set evs
           \<and> policy_update env st =
               Inr (st\<lparr> world := snd (random_sample env (world st) (data_buffer st) (batch_size st)),
                        policy_value_net := net_trained env st m,
                        lr_multiplier := adapt_lr_multiplier (kl_targ st) (kl_epoch env st m) (lr_multiplier st),
                        logged := logged st @ evs \<rparr>,
                    loss_epoch env st m, entropy_epoch env st m)"
proof -
  obtain m evs where st: "stops_at (epoch_of env st) (kl_targ st) (nat (epochs st)) (policy_value_net st) m"
    and run: "epoch_loop (epoch_of env st) (kl_targ st) (epochs st) (nat (epochs st)) 0
                (policy_value_net st) None [] =
              (if m = 0 then None else Some (vars_of_epoch (epoch_of env st) (policy_value_net st) m),
               after_epochs (epoch_of env st) (policy_value_net st) m, [] @ evs)"
    and evs: "LogTrainBatchCost \<notin> set evs"
    using epoch_loop_char [where epoch = "epoch_of env st" and targ = "kl_targ st"
        and n = "nat (epochs st)" and net = "policy_value_net st" and E = "epochs st" and i = 0
        and vars = None and lg = "[]"]
    by blast
  have perf: "epochs_performed env st m" using st assms(2) by (rule stops_at_epochs_performed)
  then have pos: "0 < m" by (simp add: epochs_performed_def)
  let ?evs = "evs @ [LogPolicyUpdate (kl_epoch env st m) (learn_rate st * lr_multiplier st)
                       (loss_epoch env st m) (entropy_epoch env st m)]"
  have "LogTrainBatchCost \<notin> set ?evs" using evs by simp
  moreover have "policy_update env st =
               Inr (st\<lparr> world := snd (random_sample env (world st) (data_buffer st) (batch_size st)),
                        policy_value_net := net_trained env st m,
                        lr_multiplier := adapt_lr_multiplier (kl_targ st) (kl_epoch env st m) (lr_multiplier st),
                        logged := logged st @ ?evs \<rparr>,
                    loss_epoch env st m, entropy_epoch env st m)"
    using assms(1) pos
    by (simp add: policy_update_unfold run vars_of_epoch_epoch_of after_epochs_epoch_of)
  ultimately show ?thesis using perf by blast
qed

lemma policy_update_Inr:
  assumes "policy_update env st = Inr r"
  shows "batch_size st \<le> length (data_buffer st) \<and> 1 \<le> epochs st"
proof -
  have b: "batch_size st \<le> length (data_buffer st)"
    using assms by (simp add: policy_update_unfold split: if_splits)
  have "1 \<le> epochs st"
  proof (rule ccontr)
    assume "\<not> 1 \<le> epochs st"
    then have "epochs st \<le> 0" by simp
    from policy_update_no_epoch [OF b this] assms show False by simp
  qed
  with b show ?thesis by simp
qed

subsection \<open>Evaluation\<close>

lemma eval_games_counts:
  "eval_games env net p n i cnt (world_before env net p w i) =
     (\<lambda>x. cnt x + length (filter (\<lambda>j. winner_of env net p w j = x) [i..<i + n]),
      world_before env net p w (i + n))"
proof (induction n arbitrary: i cnt)
  case 0
  show ?case by simp
next
  case (Suc n)
  obtain winner w' where play: "start_play env (world_before env net p w i) net p (i mod 2) = (winner, w')"
    by (cases "start_play env (world_before env net p w i) net p (i mod 2)")
  have winner: "winner = winner_of env net p w i" using play by (simp add: winner_of_def)
  have w': "w' = world_before env net p w (Suc i)" using play by simp
  have upt: "[i..<i + Suc n] = i # [Suc i..<Suc i + n]" by (simp add: upt_conv_Cons)
  have "eval_games env net p (Suc n) i cnt (world_before env net p w i) =
          eval_games env net p n (Suc i) (cnt(winner := cnt winner + 1)) (world_before env net p w (Suc i))"
    by (simp add: play)
  also have "\<dots> = (\<lambda>x. (cnt(winner := cnt winner + 1)) x
                          + length (filter (\<lambda>j. winner_of env net p w j = x) [Suc i..<Suc i + n]),
                    world_before env net p w (Suc i + n))"
    by (rule Suc.IH)
  also have "\<dots> = (\<lambda>x. cnt x + length (filter (\<lambda>j. winner_of env net p w j = x) [i..<i + Suc n]),
                    world_before env net p w (i + Suc n))"
    unfolding upt by (auto simp: winner fun_eq_iff)
  finally show ?case .
qed

lemma policy_evaluate_char:
  assumes "0 < n_games"
  shows "policy_evaluate env n_games st =
     Inr ((real (games_won_by env (policy_value_net st) (pure_mcts_playout_num st) (world st) n_games 1)
            + (5 / 10) * real (games_won_by env (policy_value_net st) (pure_mcts_playout_num st) (world st) n_games (- 1)))
          / real n_games,
          st\<lparr> world := world_before env (policy_value_net st) (pure_mcts_playout_num st) (world st) n_games,
              logged := logged st @ [LogEvaluation (pure_mcts_playout_num st)
                  (games_won_by env (policy_value_net st) (pure_mcts_playout_num st) (world st) n_games 1)
                  (games_won_by env (policy_value_net st) (pure_mcts_playout_num st) (world st) n_games 2)
                  (games_won_by env (policy_value_net st) (pure_mcts_playout_num st) (world st) n_games (- 1))] \<rparr>)"
proof -
  have "eval_games env (policy_value_net st) (pure_mcts_playout_num st) n_games 0 (\<lambda>_. 0) (world st) =
          (\<lambda>x. games_won_by env (policy_value_net st) (pure_mcts_playout_num st) (world st) n_games x,
           world_before env (policy_value_net st) (pure_mcts_playout_num st) (world st) n_games)"
    using eval_games_counts [where env = env and net = "policy_value_net st"
        and p = "pure_mcts_playout_num st" and n = n_games and i = 0 and cnt = "\<lambda>_. 0" and w = "world st"]
    by (simp add: games_won_by_def)
  then show ?thesis using assms by (simp add: policy_evaluate_def)
qed

lemma policy_evaluate_0: "policy_evaluate env 0 st = Inl ZeroDivisionError"
  by (simp add: policy_evaluate_def)

subsection \<open>The phases of a cycle\<close>

lemma quiet_refl: "quiet st st"
  by (simp add: quiet_def)

lemma quiet_trans: "quiet st st' \<Longrightarrow> quiet st' st'' \<Longrightarrow> quiet st st''"
  by (auto simp: quiet_def)

lemma selfplay_games_quiet:
  "selfplay_games env ti di n st = Inr st' \<Longrightarrow> quiet st st'"
proof (induction n arbitrary: st)
  case 0
  then show ?case by (simp add: quiet_refl)
next
  case (Suc n)
  obtain warning winner play_data w' where sp:
    "start_self_play env (world st) (policy_value_net st) (training_data st ! di)
       = ((warning, winner, play_data), w')"
    by (metis prod.exhaust)
  let ?lg = "logged st @ (if warning then [LogSelfPlayError ti (training_data st ! di)] else [])
               @ [LogWinner winner (training_data st ! di)]"
  from Suc.prems sp obtain equi where
    equi: "get_equi_data (board_height st) (board_width st) play_data = Inr equi"
    and rest: "selfplay_games env ti di n
                 (st\<lparr> world := w', logged := ?lg, episode_len := length play_data,
                      data_buffer := deque_extend (buffer_size st) (data_buffer st) equi \<rparr>) = Inr st'"
    by (auto simp: Let_def split: sum.splits)
  have "quiet st (st\<lparr> world := w', logged := ?lg, episode_len := length play_data,
                      data_buffer := deque_extend (buffer_size st) (data_buffer st) equi \<rparr>)"
    by (simp add: quiet_def)
  with Suc.IH [OF rest] show ?case by (blast intro: quiet_trans)
qed

lemma collect_selfplay_data_quiet:
  assumes "collect_selfplay_data env n_games i st = Inr st'"
  shows "quiet st st'"
proof -
  from assms obtain st1 where
    sp: "selfplay_games env i (i mod length (training_data st)) n_games st = Inr st1"
    and st': "st' = st1\<lparr> logged := logged st1 @ [LogBufferLength i (length (data_buffer st1))] \<rparr>"
    by (auto simp: collect_selfplay_data_def split: if_splits sum.splits)
  have "quiet st1 st'" by (simp add: st' quiet_def)
  with selfplay_games_quiet [OF sp] show ?thesis by (rule quiet_trans)
qed

lemma adapt_lr_multiplier_bounds:
  assumes "1 / 30 < m" and "m < 30"
  shows "1 / 30 < adapt_lr_multiplier targ kl m \<and> adapt_lr_multiplier targ kl m < 30"
  using assms by (auto simp: adapt_lr_multiplier_def field_simps)

lemma policy_update_result:
  assumes "policy_update env st = Inr (st', loss, entropy)"
  shows "\<exists>m evs. epochs_performed env st m \<and> LogTrainBatchCost \<notin> set evs
           \<and> st' = st\<lparr> world := snd (random_sample env (world st) (data_buffer st) (batch_size st)),
                        policy_value_net := net_trained env st m,
                        lr_multiplier := adapt_lr_multiplier (kl_targ st) (kl_epoch env st m) (lr_multiplier st),
                        logged := logged st @ evs \<rparr>
           \<and> loss = loss_epoch env st m \<and> entropy = entropy_epoch env st m"
proof -
  from policy_update_Inr [OF assms]
  have "batch_size st \<le> length (data_buffer st)" and "1 \<le> epochs st" by simp_all
  from policy_update_epochs [OF this, of env] assms show ?thesis by auto
qed

lemma update_phase_result:
  assumes "update_phase env st = Inr st'"
  shows "best_win_ratio st' = best_win_ratio st
         \<and> pure_mcts_playout_num st' = pure_mcts_playout_num st
         \<and> check_freq st' = check_freq st
         \<and> (1 / 30 < lr_multiplier st \<and> lr_multiplier st < 30
              \<longrightarrow> 1 / 30 < lr_multiplier st' \<and> lr_multiplier st' < 30)
         \<and> (\<exists>evs. logged st' = logged st @ evs
               \<and> (LogTrainBatchCost \<in> set evs \<longleftrightarrow> batch_size st < length (data_buffer st)))"
proof (cases "batch_size st < length (data_buffer st)")
  case False
  with assms have "st' = st" by (simp add: update_phase_def)
  with False show ?thesis by simp
next
  case True
  with assms obtain st1 loss entropy where
    pu: "policy_update env st = Inr (st1, loss, entropy)"
    and st': "st' = st1\<lparr> logged := logged st1 @ [LogTrainBatchCost] \<rparr>"
    by (auto simp: update_phase_def split: sum.splits)
  from policy_update_result [OF pu] obtain m evs where
    st1: "st1 = st\<lparr> world := snd (random_sample env (world st) (data_buffer st) (batch_size st)),
                        policy_value_net := net_trained env st m,
                        lr_multiplier := adapt_lr_multiplier (kl_targ st) (kl_epoch env st m) (lr_multiplier st),
                        logged := logged st @ evs \<rparr>"
    by blast
  have "logged st' = logged st @ (evs @ [LogTrainBatchCost])" by (simp add: st' st1)
  moreover have "LogTrainBatchCost \<in> set (evs @ [LogTrainBatchCost])" by simp
  ultimately have "\<exists>evs. logged st' = logged st @ evs
               \<and> (LogTrainBatchCost \<in> set evs \<longleftrightarrow> batch_size st < length (data_buffer st))"
    using True by blast
  moreover have "1 / 30 < lr_multiplier st \<and> lr_multiplier st < 30
              \<longrightarrow> 1 / 30 < lr_multiplier st' \<and> lr_multiplier st' < 30"
    using adapt_lr_multiplier_bounds [of "lr_multiplier st" "kl_targ st" "kl_epoch env st m"]
    by (simp add: st' st1)
  ultimately show ?thesis by (simp add: st' st1)
qed

lemma check_phase_result:
  assumes "check_phase env i st = Inr st'"
  shows "lr_multiplier st' = lr_multiplier st
         \<and> (\<exists>evs. logged st' = logged st @ evs \<and> LogTrainBatchCost \<notin> set evs)
         \<and> (best_win_ratio st \<le> best_win_ratio st'
               \<and> pure_mcts_playout_num st' = pure_mcts_playout_num st
             \<or> pure_mcts_playout_num st < 8000
               \<and> pure_mcts_playout_num st' = pure_mcts_playout_num st + 1000
               \<and> best_win_ratio st' = 0)"
  using assms
  by (auto simp: check_phase_def Let_def policy_evaluate_char split: if_splits)


lemma run_cycle_phases:
  assumes "run_cycle env i st = Inr st'"
  shows "\<exists>s1 s2. collect_selfplay_data env 1 i st = Inr s1
           \<and> update_phase env (s1\<lparr> logged := logged s1
                  @ [LogCollectionCost, LogBatch (i + 1) (episode_len s1) (length (data_buffer s1))] \<rparr>) = Inr s2
           \<and> check_phase env i s2 = Inr st'"
  using assms by (auto simp: run_cycle_def split: sum.splits)

lemma run_cycle_result:
  assumes "run_cycle env i st = Inr st'"
  shows "(1 / 30 < lr_multiplier st \<and> lr_multiplier st < 30
              \<longrightarrow> 1 / 30 < lr_multiplier st' \<and> lr_multiplier st' < 30)
         \<and> (best_win_ratio st \<le> best_win_ratio st'
               \<and> pure_mcts_playout_num st' = pure_mcts_playout_num st
             \<or> pure_mcts_playout_num st < 8000
               \<and> pure_mcts_playout_num st' = pure_mcts_playout_num st + 1000
               \<and> best_win_ratio st' = 0)"
proof -
  from run_cycle_phases [OF assms] obtain s1 s2 where
    c: "collect_selfplay_data env 1 i st = Inr s1"
    and u: "update_phase env (s1\<lparr> logged := logged s1
                  @ [LogCollectionCost, LogBatch (i + 1) (episode_len s1) (length (data_buffer s1))] \<rparr>) = Inr s2"
    and k: "check_phase env i s2 = Inr st'"
    by blast
  from collect_selfplay_data_quiet [OF c]
  have q: "lr_multiplier s1 = lr_multiplier st" "best_win_ratio s1 = best_win_ratio st"
    "pure_mcts_playout_num s1 = pure_mcts_playout_num st"
    by (simp_all add: quiet_def)
  from update_phase_result [OF u] q
  have u': "best_win_ratio s2 = best_win_ratio st" "pure_mcts_playout_num s2 = pure_mcts_playout_num st"
    "1 / 30 < lr_multiplier st \<and> lr_multiplier st < 30
       \<longrightarrow> 1 / 30 < lr_multiplier s2 \<and> lr_multiplier s2 < 30"
    by simp_all
  from check_phase_result [OF k] u' show ?thesis by simp
qed

lemma policy_evaluate_ratio:
  "0 < n_games \<Longrightarrow>
     map_sum id fst (policy_evaluate env n_games st) = Inr (win_ratio_of env st n_games)"
  by (simp add: policy_evaluate_char win_ratio_of_def)

lemma win_ratio_of_logged [simp]:
  "win_ratio_of env (st\<lparr> logged := lg \<rparr>) n = win_ratio_of env st n"
  by (simp add: win_ratio_of_def)

lemma run_cycle_before_checks:
  "run_cycle env i st =
     (case before_checks env i st of Inl e \<Rightarrow> Inl e | Inr st2 \<Rightarrow> check_phase env i st2)"
  by (simp add: run_cycle_def before_checks_def split: sum.splits)

lemma check_phase_escalation:
  assumes "check_phase env i st = Inr st'"
  shows "if (int i + 1) mod check_freq st = 0
            \<and> win_ratio_of env st 10 > best_win_ratio st
            \<and> win_ratio_of env st 10 \<ge> 98 / 100
            \<and> pure_mcts_playout_num st < 8000
         then best_win_ratio st' = 0
            \<and> pure_mcts_playout_num st' = pure_mcts_playout_num st + 1000
         else best_win_ratio st \<le> best_win_ratio st'
            \<and> pure_mcts_playout_num st' = pure_mcts_playout_num st"
  using assms
  by (auto simp: check_phase_def Let_def policy_evaluate_char win_ratio_of_def split: if_splits)

lemma before_checks_result:
  assumes "before_checks env i st = Inr st'"
  shows "best_win_ratio st' = best_win_ratio st
         \<and> pure_mcts_playout_num st' = pure_mcts_playout_num st
         \<and> check_freq st' = check_freq st"
proof -
  from assms obtain s1 where
    c: "collect_selfplay_data env 1 i st = Inr s1"
    and u: "update_phase env (s1\<lparr> logged := logged s1
                  @ [LogCollectionCost, LogBatch (i + 1) (episode_len s1) (length (data_buffer s1))] \<rparr>) = Inr st'"
    by (auto simp: before_checks_def split: sum.splits)
  from collect_selfplay_data_quiet [OF c]
  have "best_win_ratio s1 = best_win_ratio st" "pure_mcts_playout_num s1 = pure_mcts_playout_num st"
    "check_freq s1 = check_freq st"
    by (simp_all add: quiet_def)
  with update_phase_result [OF u] show ?thesis by simp
qed

lemma run_from_snoc:
  "run_from env i (Suc n) st =
     (case run_from env i n st of Inl e \<Rightarrow> Inl e | Inr s \<Rightarrow> run_cycle env (i + n) s)"
proof (induction n arbitrary: i st)
  case 0
  show ?case by (simp split: sum.splits)
next
  case (Suc n)
  show ?case
  proof (cases "run_cycle env i st")
    case (Inl e)
    then show ?thesis by simp
  next
    case (Inr s)
    have "run_from env i (Suc (Suc n)) st = run_from env (Suc i) (Suc n) s"
      using Inr by simp
    also have "\<dots> = (case run_from env (Suc i) n s of Inl e \<Rightarrow> Inl e
                        | Inr s' \<Rightarrow> run_cycle env (Suc i + n) s')"
      by (rule Suc.IH)
    also have "\<dots> = (case run_from env i (Suc n) st of Inl e \<Rightarrow> Inl e
                        | Inr s' \<Rightarrow> run_cycle env (i + Suc n) s')"
      using Inr by (simp split: sum.splits)
    finally show ?thesis .
  qed
qed

lemma run_from_invariant:
  assumes step: "\<And>i s s'. P s \<Longrightarrow> run_cycle env i s = Inr s' \<Longrightarrow> P s'"
    and "P st" and "run_from env i n st = Inr st'"
  shows "P st'"
  using assms(2,3)
proof (induction n arbitrary: i st)
  case 0
  then show ?case by simp
next
  case (Suc n)
  from Suc.prems(2) obtain s where c: "run_cycle env i st = Inr s"
    and r: "run_from env (Suc i) n s = Inr st'"
    by (auto split: sum.splits)
  from step [OF Suc.prems(1) c] have "P s" .
  from Suc.IH [OF this r] show ?case .
qed

subsection \<open>The concrete pipeline\<close>

lemma run_from_numeral:
  "run_from env i (numeral k) st =
     (case run_cycle env i st of Inl e \<Rightarrow> Inl e | Inr st' \<Rightarrow> run_from env (Suc i) (pred_numeral k) st')"
  by (simp add: numeral_eq_Suc)

lemma example_world_before: "world_before example_env net p w j = w + j"
  by (induction j) (simp_all add: example_env_def)

lemma example_winner_of:
  "winner_of example_env net p w j = (if w + j < 5 then 1 else if w + j < 10 then 2 else 1)"
  by (simp add: winner_of_def example_world_before) (simp add: example_env_def)

lemma upt_10: "[0..<10] = [0, 1, 2, 3, 4, 5, 6, 7, 8, 9 :: nat]"
  by code_simp

lemma upt_10': "[0..<10] = [0, Suc 0, 2, 3, 4, 5, 6, 7, 8, 9 :: nat]"
  using upt_10 by simp

lemma example_won_first: "games_won_by example_env net p 0 10 x = (if x = 1 then 5 else if x = 2 then 5 else 0)"
  by (simp add: games_won_by_def example_winner_of upt_10')

lemma example_won_second: "games_won_by example_env net p 10 10 x = (if x = 1 then 10 else 0)"
  by (simp add: games_won_by_def example_winner_of upt_10')

lemma example_start_self_play: "start_self_play example_env w net f = ((False, 1, [([[[1, 0], [0, 0]]], [1, 0, 0, 0], 1)]), w)"
  by (simp add: example_env_def)

lemma example_policy_value:
  "policy_value example_env net batch = (map (\<lambda>_. [1 / 2, 1 / 2, 0, 0]) batch, map (\<lambda>_. 0) batch)"
  by (simp add: example_env_def)

lemma example_train_step:
  "train_step example_env net sb pb wb lr = ((1 / real (Suc net), 1), Suc net)"
  by (simp add: example_env_def)

lemma example_random_sample: "random_sample example_env w buf k = (take k buf, w)"
  by (simp add: example_env_def)

lemma map_sum_Inr_D: "map_sum id f x = Inr v \<Longrightarrow> \<exists>s. x = Inr s \<and> f s = v"
  by (cases x) auto

lemmas example_simps =
  example_conf_def example_state_def update_state_def init_def
  run_cycle_def collect_selfplay_data_def get_equi_data_def equi_rot_def reshape_def
  flatten_def flipud_def fliplr_def rot90_def deque_extend_def deque_append_def
  update_phase_def check_phase_def policy_evaluate_char example_world_before
  example_won_first example_won_second
  policy_update_def train_epoch_def kl_divergence_def np_mean_def adapt_lr_multiplier_def
  example_policy_value example_train_step example_random_sample example_start_self_play
  Let_def

lemma example_best_after:
  "best_after example_env example_state 1 = Inr (1 / 2)"
  "best_after example_env example_state 2 = Inr 0"
  by (simp_all add: best_after_def example_simps run_from_numeral)

lemma example_playouts_after:
  "map_sum id pure_mcts_playout_num (run_from example_env 0 1 example_state) = Inr 1000"
  "map_sum id pure_mcts_playout_num (run_from example_env 0 2 example_state) = Inr 2000"
  by (simp_all add: example_simps run_from_numeral)

lemma example_lr_after: "lr_after example_env update_state 8 = Inr (6561 / 256)"
  by (simp add: lr_after_def example_simps run_from_numeral)

lemma example_ceiling:
  "map_sum id (\<lambda>s. (best_win_ratio s, pure_mcts_playout_num s))
     (run_from example_env 0 2 ceiling_state) = Inr (1, 8000)"
  by (simp add: ceiling_state_def example_simps run_from_numeral)

lemma example_collect:
  "map_sum id (\<lambda>s. (length (data_buffer s), batch_size s))
     (collect_selfplay_data example_env 1 0 example_state) = Inr (8, 512)"
  "map_sum id (\<lambda>s. (length (data_buffer s), batch_size s))
     (collect_selfplay_data example_env 1 0 update_state) = Inr (8, 1)"
  by (simp_all add: example_simps)

lemma example_update_cycle:
  "map_sum id (\<lambda>s. ()) (run_cycle example_env 0 update_state) = Inr ()"
  by (simp add: example_simps)

lemma example_kl_epoch: "kl_epoch example_env filled_state k = 0"
  by (simp add: kl_epoch_def kl_divergence_def np_mean_def mini_batch_of_def
      example_policy_value example_random_sample filled_state_def update_state_def
      example_conf_def init_def)

lemma example_net_trained: "net_trained example_env st k = policy_value_net st + k"
  by (induction k) (simp_all add: train_once_def example_train_step)

lemma filled_state_fields:
  "batch_size filled_state = 1" "length (data_buffer filled_state) = 2"
  "epochs filled_state = 2" "kl_targ filled_state = 2 / 100" "lr_multiplier filled_state = 1"
  "policy_value_net filled_state = 0"
  by (simp_all add: filled_state_def update_state_def example_conf_def init_def)

lemma filled_state_update:
  "\<exists>st' loss entropy. policy_update example_env filled_state = Inr (st', loss, entropy)"
  using policy_update_epochs [of filled_state example_env]
  by (simp add: filled_state_fields) blast

section \<open>The training loop\<close>

subsection \<open>Policy update\<close>

text \<open>
  Claim C5. A policy update that returns has run some number \<open>m\<close> of epochs, and
  it has adapted the multiplier by the three-way rule on the KL divergence measured in
  that last epoch: divided by 1.5 when the divergence is above twice the target and the
  multiplier above 0.05; otherwise multiplied by 1.5 when the divergence is below half
  the target and the multiplier below 20; otherwise left as it was.
\<close>

theorem policy_update_adapts_lr_multiplier:
  assumes "policy_update env st = Inr (st', loss, entropy)"
  shows "\<exists>m. epochs_performed env st m
           \<and> lr_multiplier st' =
               (if kl_epoch env st m > 2 * kl_targ st \<and> lr_multiplier st > 5 / 100
                then lr_multiplier st / (15 / 10)
                else if kl_epoch env st m < (5 / 10) * kl_targ st \<and> lr_multiplier st < 20
                then lr_multiplier st * (15 / 10)
                else lr_multiplier st)"
proof -
  from policy_update_result [OF assms] obtain m where
    m: "epochs_performed env st m"
    and lr: "lr_multiplier st' = adapt_lr_multiplier (kl_targ st) (kl_epoch env st m) (lr_multiplier st)"
    by auto
  have "adapt_lr_multiplier (kl_targ st) (kl_epoch env st m) (lr_multiplier st) =
               (if kl_epoch env st m > 2 * kl_targ st \<and> lr_multiplier st > 5 / 100
                then lr_multiplier st / (15 / 10)
                else if kl_epoch env st m < (5 / 10) * kl_targ st \<and> lr_multiplier st < 20
                then lr_multiplier st * (15 / 10)
                else lr_multiplier st)"
    by (simp add: adapt_lr_multiplier_def mult.commute)
  with m lr show ?thesis by auto
qed

theorem policy_update_adapts_lr_multiplier_witness:
  "\<exists>st' loss entropy. policy_update example_env filled_state = Inr (st', loss, entropy)
      \<and> lr_multiplier st' = 3 / 2"
proof -
  from filled_state_update obtain st' loss entropy where
    pu: "policy_update example_env filled_state = Inr (st', loss, entropy)" by blast
  from policy_update_adapts_lr_multiplier [OF pu]
  have "lr_multiplier st' = 3 / 2"
    by (simp add: example_kl_epoch filled_state_fields)
  with pu show ?thesis by blast
qed

text \<open>
  Claim C6. A policy update that returns has run \<open>m\<close> epochs, at least one and at
  most \<^verbatim>\<open>epochs\<close>. No epoch before the last measured a KL divergence above four times
  the target, and when fewer than \<^verbatim>\<open>epochs\<close> were run the last one did: the loop
  stops at the first such epoch. The network has been trained \<open>m\<close> times. The KL
  divergence of epoch \<open>k\<close> is the mean over the batch of the sum over the actions of
  \<open>p * (ln (p + 1e-10) - ln (q + 1e-10))\<close>, where \<open>p\<close> are the probabilities of the
  network before the first epoch and \<open>q\<close> those of the network after \<open>k\<close> training
  steps.
\<close>

theorem policy_update_epoch_loop:
  assumes "policy_update env st = Inr (st', loss, entropy)"
  shows "\<exists>m. 1 \<le> m \<and> int m \<le> epochs st
           \<and> (\<forall>k \<in> {1..<m}. kl_epoch env st k \<le> 4 * kl_targ st)
           \<and> (int m < epochs st \<longrightarrow> kl_epoch env st m > 4 * kl_targ st)
           \<and> policy_value_net st' = net_trained env st m
           \<and> (\<forall>k. kl_epoch env st k =
                 np_mean (map2 (\<lambda>old_row new_row.
                     sum_list (map2 (\<lambda>p q. p * (ln (p + 1 / 10 ^ 10) - ln (q + 1 / 10 ^ 10)))
                                    old_row new_row))
                   (fst (policy_value env (policy_value_net st) (map fst (mini_batch_of env st))))
                   (fst (policy_value env (net_trained env st k) (map fst (mini_batch_of env st))))))"
proof -
  from policy_update_result [OF assms] obtain m where
    m: "epochs_performed env st m" and net: "policy_value_net st' = net_trained env st m"
    by auto
  from m have "1 \<le> m" "int m \<le> epochs st"
    "\<forall>k \<in> {1..<m}. kl_epoch env st k \<le> 4 * kl_targ st"
    "int m < epochs st \<longrightarrow> kl_epoch env st m > 4 * kl_targ st"
    by (auto simp: epochs_performed_def not_less mult.commute)
  moreover have "kl_epoch env st k =
                 np_mean (map2 (\<lambda>old_row new_row.
                     sum_list (map2 (\<lambda>p q. p * (ln (p + 1 / 10 ^ 10) - ln (q + 1 / 10 ^ 10)))
                                    old_row new_row))
                   (fst (policy_value env (policy_value_net st) (map fst (mini_batch_of env st))))
                   (fst (policy_value env (net_trained env st k) (map fst (mini_batch_of env st)))))" for k
    by (simp only: kl_epoch_def kl_divergence_def)
  ultimately show ?thesis using net by blast
qed

theorem policy_update_epoch_loop_witness:
  "\<exists>st' loss entropy. policy_update example_env filled_state = Inr (st', loss, entropy)
      \<and> policy_value_net st' = 2"
proof -
  from filled_state_update obtain st' loss entropy where
    pu: "policy_update example_env filled_state = Inr (st', loss, entropy)" by blast
  from policy_update_epoch_loop [OF pu] obtain m where
    m: "1 \<le> m" "int m \<le> epochs filled_state"
      "int m < epochs filled_state \<longrightarrow> kl_epoch example_env filled_state m > 4 * kl_targ filled_state"
      "policy_value_net st' = net_trained example_env filled_state m"
    by blast
  from m(1-3) have "m = 2" by (simp add: example_kl_epoch filled_state_fields)
  with m(4) have "policy_value_net st' = 2"
    by (simp add: example_net_trained filled_state_fields)
  with pu show ?thesis by blast
qed

text \<open>
  Claim C10. On a buffer that holds at least one batch, a policy update with
  \<^verbatim>\<open>epochs = 0\<close> fails with \<^verbatim>\<open>UnboundLocalError\<close> (the name \<^verbatim>\<open>kl\<close> is bound only in
  the loop); with \<^verbatim>\<open>epochs >= 1\<close> it returns, and what it returns are the loss and the
  entropy of the last epoch it ran.
\<close>

theorem policy_update_needs_an_epoch:
  assumes "batch_size st \<le> length (data_buffer st)"
  shows "(epochs st = 0 \<longrightarrow> policy_update env st = Inl UnboundLocalError)
         \<and> (1 \<le> epochs st \<longrightarrow>
              (\<exists>st' m. epochs_performed env st m
                 \<and> policy_update env st = Inr (st', loss_epoch env st m, entropy_epoch env st m)))"
proof (intro conjI impI)
  assume "epochs st = 0"
  then have "epochs st \<le> 0" by simp
  with assms show "policy_update env st = Inl UnboundLocalError" by (rule policy_update_no_epoch)
next
  assume "1 \<le> epochs st"
  from policy_update_epochs [OF assms this, of env]
  show "\<exists>st' m. epochs_performed env st m
          \<and> policy_update env st = Inr (st', loss_epoch env st m, entropy_epoch env st m)"
    by blast
qed

theorem policy_update_needs_an_epoch_witness:
  "policy_update example_env (filled_state\<lparr> epochs := 0 \<rparr>) = Inl UnboundLocalError
   \<and> (\<exists>st' m. epochs_performed example_env filled_state m
         \<and> policy_update example_env filled_state =
             Inr (st', loss_epoch example_env filled_state m, entropy_epoch example_env filled_state m))"
proof -
  have "batch_size (filled_state\<lparr> epochs := 0 \<rparr>) \<le> length (data_buffer (filled_state\<lparr> epochs := 0 \<rparr>))"
    by (simp add: filled_state_fields)
  from policy_update_needs_an_epoch [OF this, of example_env]
  have a: "policy_update example_env (filled_state\<lparr> epochs := 0 \<rparr>) = Inl UnboundLocalError"
    by simp
  have "batch_size filled_state \<le> length (data_buffer filled_state)"
    by (simp add: filled_state_fields)
  from policy_update_needs_an_epoch [OF this, of example_env]
  have b: "\<exists>st' m. epochs_performed example_env filled_state m
         \<and> policy_update example_env filled_state =
             Inr (st', loss_epoch example_env filled_state m, entropy_epoch example_env filled_state m)"
    by (simp add: filled_state_fields)
  from a b show ?thesis by blast
qed

text \<open>
  Claim C4 as the specification states it: the multiplier stays in the interval from
  0.05 (excluded) to 20. It does not: with the multiplier at 1, eight updates that each
  measure a KL divergence of 0 multiply it by 1.5 each time, the last time from about
  17.1 to about 25.6.
\<close>

theorem lr_multiplier_leaves_interval:
  "lr_after example_env update_state 8 = Inr (6561 / 256) \<and> (20 :: real) < 6561 / 256"
  using example_lr_after by simp

text \<open>
  Claim C4, amended. The multiplier starts at its configured value. The rule divides it
  only while it is above 0.05 and multiplies it only while it is below 20, so a
  multiplier strictly between 1/30 and 30 stays strictly between 1/30 and 30 through
  every policy update and through every number of cycles of the run.
\<close>

theorem lr_multiplier_bounds:
  assumes "1 / 30 < lr_multiplier st" and "lr_multiplier st < 30"
  shows "lr_multiplier (init conf files net w) = conf_lr_multiplier conf
         \<and> (policy_update env st = Inr (st', loss, entropy)
              \<longrightarrow> 1 / 30 < lr_multiplier st' \<and> lr_multiplier st' < 30)
         \<and> (run_from env i n st = Inr st''
              \<longrightarrow> 1 / 30 < lr_multiplier st'' \<and> lr_multiplier st'' < 30)"
proof (intro conjI impI)
  show "lr_multiplier (init conf files net w) = conf_lr_multiplier conf" by (simp add: init_def)
next
  assume pu: "policy_update env st = Inr (st', loss, entropy)"
  from policy_update_result [OF pu] obtain m where
    "lr_multiplier st' = adapt_lr_multiplier (kl_targ st) (kl_epoch env st m) (lr_multiplier st)"
    by auto
  with adapt_lr_multiplier_bounds [OF assms]
  show "1 / 30 < lr_multiplier st'" and "lr_multiplier st' < 30" by simp_all
next
  assume run: "run_from env i n st = Inr st''"
  have "1 / 30 < lr_multiplier st'' \<and> lr_multiplier st'' < 30"
  proof (rule run_from_invariant [where P = "\<lambda>s. 1 / 30 < lr_multiplier s \<and> lr_multiplier s < 30", OF _ _ run])
    show "1 / 30 < lr_multiplier st \<and> lr_multiplier st < 30" using assms by simp
  next
    fix i s s'
    assume "1 / 30 < lr_multiplier s \<and> lr_multiplier s < 30" and "run_cycle env i s = Inr s'"
    with run_cycle_result [of env i s s']
    show "1 / 30 < lr_multiplier s' \<and> lr_multiplier s' < 30" by blast
  qed
  then show "1 / 30 < lr_multiplier st''" and "lr_multiplier st'' < 30" by simp_all
qed

theorem lr_multiplier_bounds_witness:
  "(\<exists>st' loss entropy. policy_update example_env filled_state = Inr (st', loss, entropy)
       \<and> 1 / 30 < lr_multiplier st' \<and> lr_multiplier st' < 30)
   \<and> (\<exists>st''. run_from example_env 0 8 update_state = Inr st''
       \<and> 1 / 30 < lr_multiplier st'' \<and> lr_multiplier st'' < 30)"
proof -
  from filled_state_update obtain st' loss entropy where
    pu: "policy_update example_env filled_state = Inr (st', loss, entropy)" by blast
  have f: "1 / 30 < lr_multiplier filled_state" "lr_multiplier filled_state < 30"
    by (simp_all add: filled_state_fields)
  from lr_multiplier_bounds [OF f, THEN conjunct2, THEN conjunct1, THEN mp, OF pu]
  have a: "1 / 30 < lr_multiplier st' \<and> lr_multiplier st' < 30" .
  from example_lr_after obtain st'' where
    run: "run_from example_env 0 8 update_state = Inr st''"
    unfolding lr_after_def by (blast dest: map_sum_Inr_D)
  have u: "1 / 30 < lr_multiplier update_state" "lr_multiplier update_state < 30"
    by (simp_all add: update_state_def example_conf_def init_def)
  from lr_multiplier_bounds [OF u, THEN conjunct2, THEN conjunct2, THEN mp, OF run]
  have b: "1 / 30 < lr_multiplier st'' \<and> lr_multiplier st'' < 30" .
  from pu a run b show ?thesis by blast
qed

subsection \<open>Evaluation\<close>

text \<open>
  Claim C9. An evaluation over \<open>n_games > 0\<close> games plays exactly that many games,
  game \<open>j\<close> (from 0) started by player \<open>j mod 2\<close>, and returns the number of games the
  learner won (winner 1) plus half the number of ties (winner -1), divided by
  \<open>n_games\<close>. (With \<open>n_games = 0\<close> the division raises \<^verbatim>\<open>ZeroDivisionError\<close>.)
\<close>

theorem policy_evaluate_win_ratio:
  assumes "0 < n_games"
  shows "\<exists>st'. policy_evaluate env n_games st =
           Inr ((real (games_won_by env (policy_value_net st) (pure_mcts_playout_num st) (world st) n_games 1)
                  + (5 / 10) * real (games_won_by env (policy_value_net st) (pure_mcts_playout_num st) (world st) n_games (- 1)))
                / real n_games, st')
         \<and> world st' = world_before env (policy_value_net st) (pure_mcts_playout_num st) (world st) n_games"
  using policy_evaluate_char [OF assms, of env st] by simp

theorem policy_evaluate_win_ratio_witness:
  "\<exists>st'. policy_evaluate example_env 10 example_state = Inr (1 / 2, st') \<and> world st' = 10"
proof -
  have "(0 :: nat) < 10" by simp
  from policy_evaluate_win_ratio [OF this, of example_env example_state]
  show ?thesis
    by (simp add: example_won_first example_world_before example_state_def init_def)
qed

subsection \<open>The cycles of a run\<close>

text \<open>
  Claim C7. In a cycle whose collection succeeded, the policy update runs exactly when
  the buffer then holds more than \<^verbatim>\<open>batch_size\<close> samples. When it holds more, the cycle
  is the update followed by the checks. When it does not, the cycle goes on to the
  checks with the state the collection left, and no error comes from the update. A
  cycle that completes has logged a training batch if and only if the buffer held more
  than \<^verbatim>\<open>batch_size\<close> samples.
\<close>

theorem update_iff_buffer_exceeds_batch:
  assumes "collect_selfplay_data env 1 i st = Inr s1"
  shows "(batch_size s1 < length (data_buffer s1) \<longrightarrow>
            run_cycle env i st =
              (case policy_update env (s1\<lparr> logged := logged s1
                       @ [LogCollectionCost, LogBatch (i + 1) (episode_len s1) (length (data_buffer s1))] \<rparr>) of
                 Inl e \<Rightarrow> Inl e
               | Inr (s2, loss, entropy) \<Rightarrow>
                   check_phase env i (s2\<lparr> logged := logged s2 @ [LogTrainBatchCost] \<rparr>)))
         \<and> (length (data_buffer s1) \<le> batch_size s1 \<longrightarrow>
              run_cycle env i st =
                check_phase env i (s1\<lparr> logged := logged s1
                       @ [LogCollectionCost, LogBatch (i + 1) (episode_len s1) (length (data_buffer s1))] \<rparr>))
         \<and> (\<forall>st'. run_cycle env i st = Inr st' \<longrightarrow>
               (LogTrainBatchCost \<in> set (drop (length (logged st)) (logged st'))
                  \<longleftrightarrow> batch_size s1 < length (data_buffer s1)))"
proof (intro conjI impI allI)
  assume "batch_size s1 < length (data_buffer s1)"
  then show "run_cycle env i st =
              (case policy_update env (s1\<lparr> logged := logged s1
                       @ [LogCollectionCost, LogBatch (i + 1) (episode_len s1) (length (data_buffer s1))] \<rparr>) of
                 Inl e \<Rightarrow> Inl e
               | Inr (s2, loss, entropy) \<Rightarrow>
                   check_phase env i (s2\<lparr> logged := logged s2 @ [LogTrainBatchCost] \<rparr>))"
    using assms by (simp add: run_cycle_def update_phase_def split: sum.splits prod.splits)
next
  assume "length (data_buffer s1) \<le> batch_size s1"
  then show "run_cycle env i st =
                check_phase env i (s1\<lparr> logged := logged s1
                       @ [LogCollectionCost, LogBatch (i + 1) (episode_len s1) (length (data_buffer s1))] \<rparr>)"
    using assms by (simp add: run_cycle_def update_phase_def)
next
  fix st'
  assume c: "run_cycle env i st = Inr st'"
  let ?s1 = "s1\<lparr> logged := logged s1
                @ [LogCollectionCost, LogBatch (i + 1) (episode_len s1) (length (data_buffer s1))] \<rparr>"
  from run_cycle_phases [OF c] assms obtain s2 where
    u: "update_phase env ?s1 = Inr s2" and k: "check_phase env i s2 = Inr st'"
    by auto
  from collect_selfplay_data_quiet [OF assms] obtain evs1 where
    e1: "logged s1 = logged st @ evs1" "LogTrainBatchCost \<notin> set evs1"
    by (auto simp: quiet_def)
  from update_phase_result [OF u] obtain evs2 where
    e2: "logged s2 = logged ?s1 @ evs2"
      "LogTrainBatchCost \<in> set evs2 \<longleftrightarrow> batch_size s1 < length (data_buffer s1)"
    by auto
  from check_phase_result [OF k] obtain evs3 where
    e3: "logged st' = logged s2 @ evs3" "LogTrainBatchCost \<notin> set evs3"
    by auto
  have "drop (length (logged st)) (logged st') =
          evs1 @ [LogCollectionCost, LogBatch (i + 1) (episode_len s1) (length (data_buffer s1))]
            @ evs2 @ evs3"
    by (simp add: e1 e2 e3)
  then show "LogTrainBatchCost \<in> set (drop (length (logged st)) (logged st'))
                  \<longleftrightarrow> batch_size s1 < length (data_buffer s1)"
    using e1 e2 e3 by simp
qed

theorem update_iff_buffer_exceeds_batch_witness:
  "(\<exists>s1. collect_selfplay_data example_env 1 0 example_state = Inr s1
       \<and> length (data_buffer s1) \<le> batch_size s1
       \<and> run_cycle example_env 0 example_state =
           check_phase example_env 0 (s1\<lparr> logged := logged s1
              @ [LogCollectionCost, LogBatch (0 + 1) (episode_len s1) (length (data_buffer s1))] \<rparr>))
   \<and> (\<exists>s1 st'. collect_selfplay_data example_env 1 0 update_state = Inr s1
       \<and> batch_size s1 < length (data_buffer s1)
       \<and> run_cycle example_env 0 update_state = Inr st'
       \<and> LogTrainBatchCost \<in> set (drop (length (logged update_state)) (logged st')))"
proof -
  from example_collect(1) obtain s1 where
    c1: "collect_selfplay_data example_env 1 0 example_state = Inr s1"
    and l1: "length (data_buffer s1) = 8" "batch_size s1 = 512"
    by (auto dest!: map_sum_Inr_D)
  from update_iff_buffer_exceeds_batch [OF c1] l1
  have a: "run_cycle example_env 0 example_state =
           check_phase example_env 0 (s1\<lparr> logged := logged s1
              @ [LogCollectionCost, LogBatch (0 + 1) (episode_len s1) (length (data_buffer s1))] \<rparr>)"
    by simp
  from example_collect(2) obtain s2 where
    c2: "collect_selfplay_data example_env 1 0 update_state = Inr s2"
    and l2: "length (data_buffer s2) = 8" "batch_size s2 = 1"
    by (auto dest!: map_sum_Inr_D)
  from example_update_cycle obtain st' where
    r: "run_cycle example_env 0 update_state = Inr st'"
    by (auto dest!: map_sum_Inr_D)
  from update_iff_buffer_exceeds_batch [OF c2] r l2
  have b: "LogTrainBatchCost \<in> set (drop (length (logged update_state)) (logged st'))"
    by simp
  from c1 l1 a c2 l2 r b show ?thesis by auto
qed

text \<open>
  Claim C3 as the specification states it: the best win ratio never decreases from one
  cycle to the next. It does: after a first evaluation with five wins in ten games it
  is 0.5; the second evaluation wins all ten games against 1000 playouts, which raises
  the playouts to 2000 and resets the best win ratio to 0.
\<close>

theorem best_win_ratio_not_monotone:
  "best_after example_env example_state 1 = Inr (1 / 2)
   \<and> best_after example_env example_state 2 = Inr 0"
  using example_best_after by simp

text \<open>
  Claim C3, amended. The best win ratio starts at 0. From the state after \<open>k\<close> cycles
  to the state after \<open>k + 1\<close> cycles it does not decrease and the baseline stays as it
  is, except when that cycle escalates the baseline, which it does exactly when it
  evaluates (\<open>k + 1\<close> is a multiple of \<^verbatim>\<open>check_freq\<close>), the win ratio of the evaluation is
  above the best so far and at least 0.98, and \<^verbatim>\<open>pure_mcts_playout_num\<close> is below 8000:
  then \<^verbatim>\<open>pure_mcts_playout_num\<close> grows by 1000 and the best win ratio is 0 again.
\<close>

theorem best_win_ratio_cycle:
  assumes "run_from env 0 k st = Inr s1" and "run_from env 0 (Suc k) st = Inr s2"
  shows "best_win_ratio (init conf files net w) = 0
         \<and> (\<exists>s. before_checks env k s1 = Inr s
              \<and> (if (int k + 1) mod check_freq s1 = 0
                     \<and> win_ratio_of env s 10 > best_win_ratio s1
                     \<and> win_ratio_of env s 10 \<ge> 98 / 100
                     \<and> pure_mcts_playout_num s1 < 8000
                  then best_win_ratio s2 = 0
                     \<and> pure_mcts_playout_num s2 = pure_mcts_playout_num s1 + 1000
                  else best_win_ratio s1 \<le> best_win_ratio s2
                     \<and> pure_mcts_playout_num s2 = pure_mcts_playout_num s1))"
proof -
  from assms have "run_cycle env k s1 = Inr s2" by (simp add: run_from_snoc del: run_from.simps)
  then obtain s where b: "before_checks env k s1 = Inr s" and c: "check_phase env k s = Inr s2"
    by (auto simp: run_cycle_before_checks split: sum.splits)
  from before_checks_result [OF b]
  have same: "best_win_ratio s = best_win_ratio s1"
    "pure_mcts_playout_num s = pure_mcts_playout_num s1" "check_freq s = check_freq s1"
    by simp_all
  from check_phase_escalation [OF c]
  have "if (int k + 1) mod check_freq s1 = 0
                     \<and> win_ratio_of env s 10 > best_win_ratio s1
                     \<and> win_ratio_of env s 10 \<ge> 98 / 100
                     \<and> pure_mcts_playout_num s1 < 8000
                  then best_win_ratio s2 = 0
                     \<and> pure_mcts_playout_num s2 = pure_mcts_playout_num s1 + 1000
                  else best_win_ratio s1 \<le> best_win_ratio s2
                     \<and> pure_mcts_playout_num s2 = pure_mcts_playout_num s1"
    by (simp only: same)
  with b have "\<exists>s. before_checks env k s1 = Inr s
              \<and> (if (int k + 1) mod check_freq s1 = 0
                     \<and> win_ratio_of env s 10 > best_win_ratio s1
                     \<and> win_ratio_of env s 10 \<ge> 98 / 100
                     \<and> pure_mcts_playout_num s1 < 8000
                  then best_win_ratio s2 = 0
                     \<and> pure_mcts_playout_num s2 = pure_mcts_playout_num s1 + 1000
                  else best_win_ratio s1 \<le> best_win_ratio s2
                     \<and> pure_mcts_playout_num s2 = pure_mcts_playout_num s1)"
    by blast
  moreover have "best_win_ratio (init conf files net w) = 0" by (simp add: init_def)
  ultimately show ?thesis by simp
qed

theorem best_win_ratio_cycle_witness:
  "(\<exists>s1 s2 s. run_from example_env 0 1 example_state = Inr s1
      \<and> run_from example_env 0 (Suc 1) example_state = Inr s2
      \<and> before_checks example_env 1 s1 = Inr s
      \<and> best_win_ratio s1 = 1 / 2
      \<and> best_win_ratio s1 < win_ratio_of example_env s 10
      \<and> 98 / 100 \<le> win_ratio_of example_env s 10
      \<and> pure_mcts_playout_num s1 < 8000
      \<and> best_win_ratio s2 = 0
      \<and> pure_mcts_playout_num s2 = pure_mcts_playout_num s1 + 1000)
   \<and> (\<exists>s2. run_from example_env 0 0 example_state = Inr example_state
      \<and> run_from example_env 0 (Suc 0) example_state = Inr s2
      \<and> best_win_ratio example_state = 0 \<and> best_win_ratio s2 = 1 / 2
      \<and> pure_mcts_playout_num s2 = pure_mcts_playout_num example_state)"
proof -
  from example_best_after(1) obtain s1 where
    s1: "run_from example_env 0 1 example_state = Inr s1" "best_win_ratio s1 = 1 / 2"
    unfolding best_after_def by (blast dest: map_sum_Inr_D)
  from example_best_after(2) obtain s2 where
    s2: "run_from example_env 0 (Suc 1) example_state = Inr s2" "best_win_ratio s2 = 0"
    unfolding best_after_def by (auto dest: map_sum_Inr_D simp: numeral_2_eq_2)
  from best_win_ratio_cycle [OF s1(1) s2(1), THEN conjunct2] obtain s where
    s: "before_checks example_env 1 s1 = Inr s"
    and rule: "if (int 1 + 1) mod check_freq s1 = 0
                     \<and> win_ratio_of example_env s 10 > best_win_ratio s1
                     \<and> win_ratio_of example_env s 10 \<ge> 98 / 100
                     \<and> pure_mcts_playout_num s1 < 8000
                  then best_win_ratio s2 = 0
                     \<and> pure_mcts_playout_num s2 = pure_mcts_playout_num s1 + 1000
                  else best_win_ratio s1 \<le> best_win_ratio s2
                     \<and> pure_mcts_playout_num s2 = pure_mcts_playout_num s1"
    by blast
  from rule s1(2) s2(2)
  have esc: "best_win_ratio s1 < win_ratio_of example_env s 10"
    "98 / 100 \<le> win_ratio_of example_env s 10"
    "pure_mcts_playout_num s1 < 8000"
    "pure_mcts_playout_num s2 = pure_mcts_playout_num s1 + 1000"
    by (simp_all split: if_splits)
  have a: "\<exists>s1 s2 s. run_from example_env 0 1 example_state = Inr s1
      \<and> run_from example_env 0 (Suc 1) example_state = Inr s2
      \<and> before_checks example_env 1 s1 = Inr s
      \<and> best_win_ratio s1 = 1 / 2
      \<and> best_win_ratio s1 < win_ratio_of example_env s 10
      \<and> 98 / 100 \<le> win_ratio_of example_env s 10
      \<and> pure_mcts_playout_num s1 < 8000
      \<and> best_win_ratio s2 = 0
      \<and> pure_mcts_playout_num s2 = pure_mcts_playout_num s1 + 1000"
    using s1 s2 s esc by blast
  have r0: "run_from example_env 0 0 example_state = Inr example_state" by simp
  from s1 have r1: "run_from example_env 0 (Suc 0) example_state = Inr s1" by simp
  have b0: "best_win_ratio example_state = 0" by (simp add: example_state_def init_def)
  from best_win_ratio_cycle [OF r0 r1, THEN conjunct2] obtain s' where
    rule0: "if (int 0 + 1) mod check_freq example_state = 0
                     \<and> win_ratio_of example_env s' 10 > best_win_ratio example_state
                     \<and> win_ratio_of example_env s' 10 \<ge> 98 / 100
                     \<and> pure_mcts_playout_num example_state < 8000
                  then best_win_ratio s1 = 0
                     \<and> pure_mcts_playout_num s1 = pure_mcts_playout_num example_state + 1000
                  else best_win_ratio example_state \<le> best_win_ratio s1
                     \<and> pure_mcts_playout_num s1 = pure_mcts_playout_num example_state"
    by blast
  from rule0 s1(2) have "pure_mcts_playout_num s1 = pure_mcts_playout_num example_state"
    by (simp split: if_splits)
  with r0 r1 b0 s1(2) have b: "\<exists>s2. run_from example_env 0 0 example_state = Inr example_state
      \<and> run_from example_env 0 (Suc 0) example_state = Inr s2
      \<and> best_win_ratio example_state = 0 \<and> best_win_ratio s2 = 1 / 2
      \<and> pure_mcts_playout_num s2 = pure_mcts_playout_num example_state"
    by blast
  from a b show ?thesis by blast
qed

text \<open>
  Claim C8. Once \<^verbatim>\<open>pure_mcts_playout_num\<close> is 8000 or more and the best win ratio 0.98
  or more, any number of further cycles, whatever their evaluations return, leave
  \<^verbatim>\<open>pure_mcts_playout_num\<close> as it is and never lower the best win ratio; in
  particular it is not reset to 0.
\<close>

theorem baseline_at_ceiling:
  assumes run: "run_from env i n st = Inr st'"
    and ceil: "8000 \<le> pure_mcts_playout_num st"
    and best: "98 / 100 \<le> best_win_ratio st"
  shows "pure_mcts_playout_num st' = pure_mcts_playout_num st
         \<and> best_win_ratio st \<le> best_win_ratio st'
         \<and> best_win_ratio st' \<noteq> 0"
proof -
  have "pure_mcts_playout_num st' = pure_mcts_playout_num st \<and> best_win_ratio st \<le> best_win_ratio st'"
  proof (rule run_from_invariant [where P = "\<lambda>s. pure_mcts_playout_num s = pure_mcts_playout_num st
             \<and> best_win_ratio st \<le> best_win_ratio s", OF _ _ run])
    show "pure_mcts_playout_num st = pure_mcts_playout_num st \<and> best_win_ratio st \<le> best_win_ratio st"
      by simp
  next
    fix i s s'
    assume inv: "pure_mcts_playout_num s = pure_mcts_playout_num st \<and> best_win_ratio st \<le> best_win_ratio s"
      and c: "run_cycle env i s = Inr s'"
    from run_cycle_result [OF c] inv ceil
    show "pure_mcts_playout_num s' = pure_mcts_playout_num st \<and> best_win_ratio st \<le> best_win_ratio s'"
      by auto
  qed
  with best show ?thesis by auto
qed

theorem baseline_at_ceiling_witness:
  "\<exists>st'. run_from example_env 0 2 ceiling_state = Inr st'
      \<and> pure_mcts_playout_num st' = 8000 \<and> best_win_ratio st' = 1"
proof -
  from example_ceiling obtain st' where
    run: "run_from example_env 0 2 ceiling_state = Inr st'" and best: "best_win_ratio st' = 1"
    by (auto dest!: map_sum_Inr_D)
  have c: "8000 \<le> pure_mcts_playout_num ceiling_state" "98 / 100 \<le> best_win_ratio ceiling_state"
    by (simp_all add: ceiling_state_def)
  from baseline_at_ceiling [OF run c]
  have "pure_mcts_playout_num st' = 8000" by (simp add: ceiling_state_def)
  with run best show ?thesis by blast
qed

end
